theory Spec2Isabelle
  imports Complex_Main "HOL-Library.Signed_Division"
begin

section \<open>The N-body gravitational integrator (gravitational\_nbody.jl)\<close>

text \<open>
  The program is the Julia listing \<^verbatim>\<open>gravitational_nbody.jl\<close>: a force kernel
  \<^verbatim>\<open>accelerations!\<close>, an energy diagnostic \<^verbatim>\<open>total_energy\<close>, the velocity-Verlet
  step \<^verbatim>\<open>vv_step!\<close> and the driver \<^verbatim>\<open>simulate!\<close>.

  Numbers. A \<^verbatim>\<open>Float64\<close> is modelled as a \<^typ>\<open>real\<close>: every arithmetic operation
  is exact. Rounding, overflow, infinities, NaN and signed zeros have no counterpart here.
  A floating-point division by zero does not raise in Julia (it yields an infinity or
  NaN); as the reals have no such value, the model makes it the result \<open>Inl NonFinite\<close>.
  The square root of a negative number raises \<^verbatim>\<open>DomainError\<close>.
  Where a property depends on rounding, the kernel is given once more in binary64
  arithmetic (section "The kernel in binary64 arithmetic").
  An \<^verbatim>\<open>Int\<close> is an \<^typ>\<open>int\<close>; the only integer operation of the program is the
  remainder \<^verbatim>\<open>k % output_every\<close>, which truncates towards zero and raises
  \<^verbatim>\<open>DivideError\<close> for a zero divisor.

  Memory. Julia vectors are mutated in place; the model passes them as values and returns
  the updated ones. Every body is taken to own its position and velocity vectors and the
  acceleration buffer to own its rows, as \<^verbatim>\<open>two_body_demo\<close>, \<^verbatim>\<open>random_system\<close> and
  \<^verbatim>\<open>simulate!\<close> construct them (no two vectors are aliases of each other).
  Indices are 1-based as in the source. A checked read or write out of range is
  \<open>Inl BoundsError\<close>; the accesses inside the \<^verbatim>\<open>@inbounds\<close> block of the kernel, which
  Julia leaves unchecked, are modelled as failing in the same way.

  Output. The progress line that \<^verbatim>\<open>simulate!\<close> prints and the closing message of
  \<^verbatim>\<open>main\<close> are not part of the model; the two files that \<^verbatim>\<open>main\<close> writes are, each as
  the list of its lines. \<^verbatim>\<open>random_system\<close> is not called by \<^verbatim>\<open>main\<close> and is not modelled.
\<close>

subsection \<open>Configuration parameters\<close>

definition G :: real where
  "G = 6.67430 / 10 ^ 11"

definition NDIM :: nat where
  "NDIM = 2"

definition SOFTENING :: real where
  "SOFTENING = 10 ^ 3"

definition DT :: real where
  "DT = 1"

definition NSTEPS :: int where
  "NSTEPS = 10000"

definition OUTPUT_EVERY :: int where
  "OUTPUT_EVERY = 100"

subsection \<open>Types\<close>

record Body =
  m :: real
  x :: "real list"
  v :: "real list"

datatype error = BoundsError | DivideError | DomainError | ArgumentError | MethodError | NonFinite

definition bind_res :: "error + 'a \<Rightarrow> ('a \<Rightarrow> error + 'b) \<Rightarrow> error + 'b" where
  "bind_res r f = (case r of Inl e \<Rightarrow> Inl e | Inr y \<Rightarrow> f y)"

text \<open>\<^verbatim>\<open>xs[i]\<close> and \<^verbatim>\<open>xs[i] = y\<close> with Julia's 1-based indices.\<close>

definition getindex :: "'a list \<Rightarrow> nat \<Rightarrow> error + 'a" where
  "getindex xs i = (if 1 \<le> i \<and> i \<le> length xs then Inr (xs ! (i - 1)) else Inl BoundsError)"

definition setindex :: "'a list \<Rightarrow> 'a \<Rightarrow> nat \<Rightarrow> error + 'a list" where
  "setindex xs y i = (if 1 \<le> i \<and> i \<le> length xs then Inr (xs[i - 1 := y]) else Inl BoundsError)"

text \<open>\<^verbatim>\<open>fill!(xs, c)\<close> overwrites every entry; \<^verbatim>\<open>similar(xs)\<close> allocates a vector of the
  same length whose entries are unspecified until written (zeros here).\<close>

definition fill :: "real list \<Rightarrow> real \<Rightarrow> real list" where
  "fill xs c = replicate (length xs) c"

definition similar :: "real list \<Rightarrow> real list" where
  "similar xs = replicate (length xs) 0"

text \<open>\<^verbatim>\<open>sqrt(y)\<close>, which raises for a negative argument, and \<^verbatim>\<open>inv(y)\<close> and
  \<^verbatim>\<open>p / q\<close> on floats.\<close>

definition sqrt_f :: "real \<Rightarrow> error + real" where
  "sqrt_f y = (if y < 0 then Inl DomainError else Inr (sqrt y))"

definition inv_f :: "real \<Rightarrow> error + real" where
  "inv_f y = (if y = 0 then Inl NonFinite else Inr (1 / y))"

definition div_f :: "real \<Rightarrow> real \<Rightarrow> error + real" where
  "div_f p q = (if q = 0 then Inl NonFinite else Inr (p / q))"

text \<open>\<^verbatim>\<open>k % n\<close> on \<^verbatim>\<open>Int\<close>.\<close>

definition rem_i :: "int \<Rightarrow> int \<Rightarrow> error + int" where
  "rem_i k n = (if n = 0 then Inl DivideError else Inr (k smod n))"

text \<open>A \<^verbatim>\<open>for\<close> loop over a range: the body is run for each index in turn on the loop's
  variables, and the first error ends the loop.\<close>

fun foreach :: "'i list \<Rightarrow> ('i \<Rightarrow> 's \<Rightarrow> error + 's) \<Rightarrow> 's \<Rightarrow> error + 's" where
  "foreach [] body s = Inr s"
| "foreach (k # ks) body s = bind_res (body k s) (foreach ks body)"

text \<open>The range \<^verbatim>\<open>lo:hi\<close> of positive indices; \<^verbatim>\<open>1:N-1\<close> is \<open>unit_range 1 (int N - 1)\<close>,
  empty when \<open>N = 0\<close>.\<close>

definition unit_range :: "nat \<Rightarrow> int \<Rightarrow> nat list" where
  "unit_range lo hi = [lo..<nat (hi + 1)]"

subsection \<open>The force kernel \<^verbatim>\<open>accelerations!\<close>\<close>

text \<open>\<^verbatim>\<open>a[i][d] += y\<close>\<close>

definition add_at :: "real list list \<Rightarrow> nat \<Rightarrow> nat \<Rightarrow> real \<Rightarrow> error + real list list" where
  "add_at a i d y =
     bind_res (getindex a i) (\<lambda>ai.
     bind_res (getindex ai d) (\<lambda>aid.
     bind_res (setindex ai (aid + y) d) (\<lambda>ai'.
     setindex a ai' i)))"

text \<open>Body of the first loop over \<open>d\<close>: \<^verbatim>\<open>rvec[d] = xj[d] - xi[d]; r2 += rvec[d]*rvec[d]\<close>\<close>

definition displacement :: "real list \<Rightarrow> real list \<Rightarrow> nat \<Rightarrow> real list \<times> real \<Rightarrow> error + real list \<times> real" where
  "displacement xi xj d = (\<lambda>(rvec, r2).
     bind_res (getindex xj d) (\<lambda>xjd.
     bind_res (getindex xi d) (\<lambda>xid.
     bind_res (setindex rvec (xjd - xid) d) (\<lambda>rvec'.
     bind_res (getindex rvec' d) (\<lambda>rd.
     Inr (rvec', r2 + rd * rd))))))"

text \<open>Body of the second loop over \<open>d\<close>:
  \<^verbatim>\<open>a[i][d] += fac_i * rvec[d]; a[j][d] += fac_j * rvec[d]\<close>\<close>

definition accumulate :: "nat \<Rightarrow> nat \<Rightarrow> real \<Rightarrow> real \<Rightarrow> real list \<Rightarrow> nat \<Rightarrow> real list list \<Rightarrow> error + real list list" where
  "accumulate i j fac_i fac_j rvec d a =
     bind_res (getindex rvec d) (\<lambda>rd.
     bind_res (add_at a i d (fac_i * rd)) (\<lambda>a'.
     bind_res (getindex rvec d) (\<lambda>rd'.
     add_at a' j d (fac_j * rd'))))"

text \<open>Body of the loop over \<open>j\<close>, for the pair \<open>(i, j)\<close>.\<close>

definition pair_force :: "Body list \<Rightarrow> real \<Rightarrow> nat \<Rightarrow> real list \<Rightarrow> real \<Rightarrow> nat \<Rightarrow> real list list \<Rightarrow> error + real list list" where
  "pair_force bodies \<epsilon>2 i xi mi j a =
     bind_res (getindex bodies j) (\<lambda>bj.
     let xj = x bj; mj = m bj in
     bind_res (foreach (unit_range 1 (int NDIM)) (displacement xi xj) (similar xi, 0)) (\<lambda>(rvec, r2).
     let r2e = r2 + \<epsilon>2 in
     bind_res (sqrt_f r2e) (\<lambda>s.
     bind_res (inv_f (s * r2e)) (\<lambda>invr3.
     let fac_i = G * mj * invr3;
         fac_j = - G * mi * invr3
     in foreach (unit_range 1 (int NDIM)) (accumulate i j fac_i fac_j rvec) a))))"

definition accelerations :: "real list list \<Rightarrow> Body list \<Rightarrow> error + real list list" where
  "accelerations a bodies =
     (let N = length bodies in
      bind_res (foreach (unit_range 1 (int N))
                 (\<lambda>i a. bind_res (getindex a i) (\<lambda>ai. setindex a (fill ai 0) i)) a) (\<lambda>a.
      let \<epsilon>2 = SOFTENING ^ 2 in
      foreach (unit_range 1 (int N - 1))
        (\<lambda>i a. bind_res (getindex bodies i) (\<lambda>bi.
                let xi = x bi; mi = m bi in
                foreach (unit_range (i + 1) (int N)) (pair_force bodies \<epsilon>2 i xi mi) a)) a))"

subsection \<open>The energy diagnostic \<^verbatim>\<open>total_energy\<close>\<close>

text \<open>The function only reads \<open>bodies\<close>; its result is the number it returns.\<close>

definition kinetic :: "Body list \<Rightarrow> error + real" where
  "kinetic bodies =
     foreach (unit_range 1 (int (length bodies)))
       (\<lambda>i K. bind_res (foreach (unit_range 1 (int NDIM))
                          (\<lambda>d vi2. bind_res (getindex bodies i) (\<lambda>bi.
                                    bind_res (getindex (v bi) d) (\<lambda>vd. Inr (vi2 + vd ^ 2)))) 0) (\<lambda>vi2.
                bind_res (getindex bodies i) (\<lambda>bi. Inr (K + 0.5 * m bi * vi2)))) 0"

definition potential :: "Body list \<Rightarrow> error + real" where
  "potential bodies =
     (let N = length bodies; \<epsilon>2 = SOFTENING ^ 2 in
      foreach (unit_range 1 (int N - 1))
        (\<lambda>i U. bind_res (getindex bodies i) (\<lambda>bi.
                let xi = x bi; mi = m bi in
                foreach (unit_range (i + 1) (int N))
                  (\<lambda>j U. bind_res (getindex bodies j) (\<lambda>bj.
                          let xj = x bj; mj = m bj in
                          bind_res (foreach (unit_range 1 (int NDIM))
                                     (\<lambda>d r2. bind_res (getindex xj d) (\<lambda>xjd.
                                              bind_res (getindex xi d) (\<lambda>xid.
                                              Inr (r2 + (xjd - xid) ^ 2)))) 0) (\<lambda>r2.
                          bind_res (sqrt_f (r2 + \<epsilon>2)) (\<lambda>s.
                          bind_res (div_f (G * mi * mj) s) (\<lambda>q.
                          Inr (U - q)))))) U)) 0)"

definition total_energy :: "Body list \<Rightarrow> error + real" where
  "total_energy bodies =
     bind_res (kinetic bodies) (\<lambda>K.
     bind_res (potential bodies) (\<lambda>U.
     Inr (K + U)))"

subsection \<open>The velocity-Verlet step \<^verbatim>\<open>vv_step!\<close>\<close>

text \<open>\<^verbatim>\<open>bodies[i].x[d] += y\<close> and \<^verbatim>\<open>bodies[i].v[d] += y\<close>\<close>

definition add_x :: "Body list \<Rightarrow> nat \<Rightarrow> nat \<Rightarrow> real \<Rightarrow> error + Body list" where
  "add_x bodies i d y =
     bind_res (getindex bodies i) (\<lambda>bi.
     bind_res (getindex (x bi) d) (\<lambda>xd.
     bind_res (setindex (x bi) (xd + y) d) (\<lambda>xi'.
     setindex bodies (bi\<lparr>x := xi'\<rparr>) i)))"

definition add_v :: "Body list \<Rightarrow> nat \<Rightarrow> nat \<Rightarrow> real \<Rightarrow> error + Body list" where
  "add_v bodies i d y =
     bind_res (getindex bodies i) (\<lambda>bi.
     bind_res (getindex (v bi) d) (\<lambda>vd.
     bind_res (setindex (v bi) (vd + y) d) (\<lambda>vi'.
     setindex bodies (bi\<lparr>v := vi'\<rparr>) i)))"

text \<open>Body of the first loop:
  \<^verbatim>\<open>bodies[i].x[d] += bodies[i].v[d]*dt + 0.5*a[i][d]*dt*dt; bodies[i].v[d] += 0.5*a[i][d]*dt\<close>\<close>

definition drift_kick :: "real list list \<Rightarrow> real \<Rightarrow> nat \<Rightarrow> nat \<Rightarrow> Body list \<Rightarrow> error + Body list" where
  "drift_kick a dt i d bodies =
     bind_res (getindex bodies i) (\<lambda>bi.
     bind_res (getindex (v bi) d) (\<lambda>vd.
     bind_res (getindex a i) (\<lambda>ai.
     bind_res (getindex ai d) (\<lambda>aid.
     bind_res (add_x bodies i d (vd * dt + 0.5 * aid * dt * dt)) (\<lambda>bodies'.
     add_v bodies' i d (0.5 * aid * dt))))))"

text \<open>Body of the last loop: \<^verbatim>\<open>bodies[i].v[d] += 0.5*a[i][d]*dt\<close>\<close>

definition kick :: "real list list \<Rightarrow> real \<Rightarrow> nat \<Rightarrow> nat \<Rightarrow> Body list \<Rightarrow> error + Body list" where
  "kick a dt i d bodies =
     bind_res (getindex a i) (\<lambda>ai.
     bind_res (getindex ai d) (\<lambda>aid.
     add_v bodies i d (0.5 * aid * dt)))"

definition vv_step :: "Body list \<Rightarrow> real list list \<Rightarrow> real \<Rightarrow> error + Body list \<times> real list list" where
  "vv_step bodies a dt =
     (let N = length bodies in
      bind_res (foreach (unit_range 1 (int N))
                 (\<lambda>i. foreach (unit_range 1 (int NDIM)) (drift_kick a dt i)) bodies) (\<lambda>bodies.
      bind_res (accelerations a bodies) (\<lambda>a.
      bind_res (foreach (unit_range 1 (int N))
                 (\<lambda>i. foreach (unit_range 1 (int NDIM)) (kick a dt i)) bodies) (\<lambda>bodies.
      Inr (bodies, a)))))"

subsection \<open>The driver \<^verbatim>\<open>simulate!\<close>\<close>

text \<open>\<^verbatim>\<open>reduce(vcat, xs)\<close> over a collection of numbers or vectors: an empty collection is
  an error, a single element is returned as it is, and two or more are concatenated
  into one vector.\<close>

datatype flat = Scalar real | Vec "real list"

fun entries :: "flat \<Rightarrow> real list" where
  "entries (Scalar c) = [c]"
| "entries (Vec cs) = cs"

definition reduce_vcat :: "flat list \<Rightarrow> error + flat" where
  "reduce_vcat fs =
     (case fs of
        [] \<Rightarrow> Inl ArgumentError
      | [f] \<Rightarrow> Inr f
      | _ \<Rightarrow> Inr (Vec (concat (map entries fs))))"

text \<open>\<^verbatim>\<open>reduce(vcat, (reduce(vcat, b.x) for b in bodies))\<close>; the inner reductions run
  as the outer one consumes the generator.\<close>

fun inner_flat :: "Body list \<Rightarrow> error + flat list" where
  "inner_flat [] = Inr []"
| "inner_flat (b # bs) =
     bind_res (reduce_vcat (map Scalar (x b))) (\<lambda>f.
     bind_res (inner_flat bs) (\<lambda>fs. Inr (f # fs)))"

definition positions :: "Body list \<Rightarrow> error + flat" where
  "positions bodies = bind_res (inner_flat bodies) reduce_vcat"

text \<open>\<^verbatim>\<open>push!(samples, p)\<close> into a \<^verbatim>\<open>Vector{Vector{Float64}}\<close>: a number cannot be
  converted to a vector.\<close>

definition push_sample :: "real list list \<Rightarrow> flat \<Rightarrow> error + real list list" where
  "push_sample samples p =
     (case p of Scalar c \<Rightarrow> Inl MethodError | Vec cs \<Rightarrow> Inr (samples @ [cs]))"

record trajectory =
  times :: "real list"
  energies :: "real list"
  samples :: "real list list"

text \<open>The three \<^verbatim>\<open>push!\<close> calls that record one sample at time \<open>t\<close>.\<close>

definition record_sample :: "Body list \<Rightarrow> real \<Rightarrow> trajectory \<Rightarrow> error + trajectory" where
  "record_sample bodies t tr =
     bind_res (total_energy bodies) (\<lambda>E.
     bind_res (positions bodies) (\<lambda>p.
     bind_res (push_sample (samples tr) p) (\<lambda>samples'.
     Inr \<lparr>times = times tr @ [t], energies = energies tr @ [E], samples = samples'\<rparr>)))"

text \<open>The loop's variables: the bodies, the acceleration buffer, the time and the
  recorded trajectory.\<close>

type_synonym sim = "Body list \<times> real list list \<times> real \<times> trajectory"

definition sim_step :: "real \<Rightarrow> int \<Rightarrow> int \<Rightarrow> sim \<Rightarrow> error + sim" where
  "sim_step dt output_every k = (\<lambda>(bodies, a, t, tr).
     bind_res (vv_step bodies a dt) (\<lambda>(bodies, a).
     let t = t + dt in
     bind_res (rem_i k output_every) (\<lambda>r.
     if r = 0
     then bind_res (record_sample bodies t tr) (\<lambda>tr. Inr (bodies, a, t, tr))
     else Inr (bodies, a, t, tr))))"

text \<open>\<^verbatim>\<open>simulate!\<close> returns \<^verbatim>\<open>times, energies, samples\<close> and leaves the advanced bodies
  in its argument; the model returns both.\<close>

definition simulate :: "Body list \<Rightarrow> real \<Rightarrow> int \<Rightarrow> int \<Rightarrow> error + trajectory \<times> Body list" where
  "simulate bodies dt nsteps output_every =
     (let N = length bodies;
          a = replicate N (replicate NDIM 0)
      in
      bind_res (accelerations a bodies) (\<lambda>a.
      bind_res (record_sample bodies 0 \<lparr>times = [], energies = [], samples = []\<rparr>) (\<lambda>tr.
      bind_res (foreach [1..nsteps] (sim_step dt output_every) (bodies, a, 0, tr))
        (\<lambda>(bodies, a, t, tr). Inr (tr, bodies)))))"


subsection \<open>The example system \<^verbatim>\<open>two_body_demo\<close>\<close>

definition two_body_demo :: "Body list" where
  "two_body_demo =
     (let m1 = 5.972 * 10 ^ 24;
          m2 = 7.348 * 10 ^ 22;
          r = 4.0 * 10 ^ 7;
          speed = sqrt (G * (m1 + m2) / r);
          x1 = [- m2 / (m1 + m2) * r, 0];
          x2 = [m1 / (m1 + m2) * r, 0];
          v1 = [0, - m2 / (m1 + m2) * speed];
          v2 = [0, m1 / (m1 + m2) * speed]
      in [\<lparr>m = m1, x = x1, v = v1\<rparr>, \<lparr>m = m2, x = x2, v = v2\<rparr>])"

section \<open>Specification\<close>

text \<open>Bodies and buffer rows are numbered from 0 below, components of a vector too.\<close>

text \<open>The shapes the driver works with: one buffer row per body, and every position,
  velocity and buffer row of length \<open>NDIM\<close>.\<close>

definition shaped :: "real list list \<Rightarrow> nat \<Rightarrow> bool" where
  "shaped a N \<longleftrightarrow> length a = N \<and> (\<forall>r \<in> set a. length r = NDIM)"

definition well_formed :: "Body list \<Rightarrow> bool" where
  "well_formed bodies \<longleftrightarrow> (\<forall>b \<in> set bodies. length (x b) = NDIM \<and> length (v b) = NDIM)"

text \<open>The softened squared separation \<open>|x\<^sub>q - x\<^sub>p|\<^sup>2 + \<epsilon>\<^sup>2\<close> of two bodies.\<close>

definition soft :: "Body list \<Rightarrow> nat \<Rightarrow> nat \<Rightarrow> real" where
  "soft bodies p q = (\<Sum>c<NDIM. (x (bodies ! q) ! c - x (bodies ! p) ! c)\<^sup>2) + SOFTENING\<^sup>2"

text \<open>What one pair \<open>(p, q)\<close> adds to component \<open>c\<close> of row \<open>k\<close>, in the kernel's own terms.\<close>

definition contrib :: "Body list \<Rightarrow> nat \<Rightarrow> nat \<Rightarrow> nat \<Rightarrow> nat \<Rightarrow> real" where
  "contrib bodies p q k c =
     (if k = p then G * m (bodies ! q) * (1 / (sqrt (soft bodies p q) * soft bodies p q)) *
                    (x (bodies ! q) ! c - x (bodies ! p) ! c) else 0) +
     (if k = q then - G * m (bodies ! p) * (1 / (sqrt (soft bodies p q) * soft bodies p q)) *
                    (x (bodies ! q) ! c - x (bodies ! p) ! c) else 0)"

text \<open>The acceleration per unit mass that body \<open>q\<close> exerts on body \<open>p\<close>, and the kernel's
  result in closed form.\<close>

definition pull :: "Body list \<Rightarrow> nat \<Rightarrow> nat \<Rightarrow> nat \<Rightarrow> real" where
  "pull bodies p q c = G * (1 / (sqrt (soft bodies p q) * soft bodies p q)) * (x (bodies ! q) ! c - x (bodies ! p) ! c)"

definition kernel :: "Body list \<Rightarrow> real list list" where
  "kernel bodies =
     map (\<lambda>k. map (\<lambda>c. \<Sum>q \<in> {..<length bodies} - {k}. m (bodies ! q) * pull bodies k q c) [0..<NDIM])
       [0..<length bodies]"

text \<open>The acceleration of body \<open>i\<close> as the specification writes it.\<close>

definition spec_acceleration :: "Body list \<Rightarrow> nat \<Rightarrow> nat \<Rightarrow> real" where
  "spec_acceleration bodies i c =
     (\<Sum>j \<in> {..<length bodies} - {i}.
        G * m (bodies ! j) * (x (bodies ! j) ! c - x (bodies ! i) ! c) /
        ((\<Sum>d<NDIM. (x (bodies ! j) ! d - x (bodies ! i) ! d)\<^sup>2) + SOFTENING\<^sup>2) powr (3 / 2))"

definition spec_kinetic :: "Body list \<Rightarrow> real" where
  "spec_kinetic bodies = (\<Sum>i<length bodies. 0.5 * m (bodies ! i) * (\<Sum>c<NDIM. (v (bodies ! i) ! c)\<^sup>2))"

definition spec_potential :: "Body list \<Rightarrow> real" where
  "spec_potential bodies =
     - (\<Sum>i<length bodies. \<Sum>j = Suc i..<length bodies.
          G * m (bodies ! i) * m (bodies ! j) /
          sqrt ((\<Sum>c<NDIM. (x (bodies ! j) ! c - x (bodies ! i) ! c)\<^sup>2) + SOFTENING\<^sup>2))"

definition drift :: "real \<Rightarrow> real list \<Rightarrow> Body \<Rightarrow> Body" where
  "drift dt ai b =
     b\<lparr>x := map (\<lambda>c. x b ! c + (v b ! c * dt + 0.5 * ai ! c * dt * dt)) [0..<NDIM],
       v := map (\<lambda>c. v b ! c + 0.5 * ai ! c * dt) [0..<NDIM]\<rparr>"

definition half_kick :: "real \<Rightarrow> real list \<Rightarrow> Body \<Rightarrow> Body" where
  "half_kick dt ai b = b\<lparr>v := map (\<lambda>c. v b ! c + 0.5 * ai ! c * dt) [0..<NDIM]\<rparr>"

definition drift_all :: "real \<Rightarrow> real list list \<Rightarrow> Body list \<Rightarrow> Body list" where
  "drift_all dt a bodies = map (\<lambda>k. drift dt (a ! k) (bodies ! k)) [0..<length bodies]"

definition kick_all :: "real \<Rightarrow> real list list \<Rightarrow> Body list \<Rightarrow> Body list" where
  "kick_all dt a bodies = map (\<lambda>k. half_kick dt (a ! k) (bodies ! k)) [0..<length bodies]"

definition momentum :: "Body list \<Rightarrow> nat \<Rightarrow> real" where
  "momentum bodies c = (\<Sum>i<length bodies. m (bodies ! i) * v (bodies ! i) ! c)"

fun advance :: "nat \<Rightarrow> real \<Rightarrow> Body list \<times> real list list \<Rightarrow> error + Body list \<times> real list list" where
  "advance 0 dt s = Inr s"
| "advance (Suc n) dt s = bind_res (advance n dt s) (\<lambda>(bodies, a). vv_step bodies a dt)"

fun state_after :: "nat \<Rightarrow> real \<Rightarrow> Body list \<Rightarrow> Body list" where
  "state_after 0 dt bodies = bodies"
| "state_after (Suc n) dt bodies =
     (let b = state_after n dt bodies; b1 = drift_all dt (kernel b) b
      in kick_all dt (kernel b1) b1)"

definition recorded :: "int \<Rightarrow> nat \<Rightarrow> nat list" where
  "recorded output_every n = 0 # filter (\<lambda>k. int k smod output_every = 0) [1..<Suc n]"

definition trajectory_of :: "real \<Rightarrow> Body list \<Rightarrow> nat list \<Rightarrow> trajectory" where
  "trajectory_of dt bodies ks =
     \<lparr>times = map (\<lambda>k. real k * dt) ks,
      energies = map (\<lambda>k. spec_kinetic (state_after k dt bodies) + spec_potential (state_after k dt bodies)) ks,
      samples = map (\<lambda>k. concat (map x (state_after k dt bodies))) ks\<rparr>"

section \<open>The kernel in binary64 arithmetic\<close>

text \<open>
  The kernel once more, in binary64 arithmetic. A finite \<^verbatim>\<open>Float64\<close> is the real number it
  denotes; \<open>fl\<close> rounds a real to the nearest binary64 number, ties to even (53 significant
  bits, the last place never below \<open>2\<^sup>-\<^sup>1\<^sup>0\<^sup>7\<^sup>4\<close>), and a result of magnitude \<open>2\<^sup>1\<^sup>0\<^sup>2\<^sup>4\<close> or more is
  the overflow \<open>Inl NonFinite\<close>. The definitions follow \<^verbatim>\<open>accelerations!\<close> line by line as
  the exact ones do, with each operation rounded; the literals \<^verbatim>\<open>6.67430e-11\<close> and \<^verbatim>\<open>1e3\<close>
  are rounded as the parser does, and \<^verbatim>\<open>SOFTENING^2\<close> is the product \<^verbatim>\<open>SOFTENING*SOFTENING\<close>.
\<close>

definition round_even :: "real \<Rightarrow> int" where
  "round_even y =
     (let n = \<lfloor>y\<rfloor>; r = y - of_int n
      in if r < 1 / 2 then n else if 1 / 2 < r then n + 1 else if even n then n else n + 1)"

definition pow2 :: "int \<Rightarrow> real" where
  "pow2 e = (if 0 \<le> e then 2 ^ nat e else 1 / 2 ^ nat (- e))"

definition fl :: "real \<Rightarrow> real" where
  "fl y =
     (if y = 0 then 0
      else let e = max \<lfloor>log 2 \<bar>y\<bar>\<rfloor> (- 1022) - 52
           in of_int (round_even (y / pow2 e)) * pow2 e)"

definition finite64 :: "real \<Rightarrow> error + real" where
  "finite64 y = (if \<bar>y\<bar> < 2 ^ 1024 then Inr y else Inl NonFinite)"

definition add64 :: "real \<Rightarrow> real \<Rightarrow> error + real" where
  "add64 p q = finite64 (fl (p + q))"

definition sub64 :: "real \<Rightarrow> real \<Rightarrow> error + real" where
  "sub64 p q = finite64 (fl (p - q))"

definition mul64 :: "real \<Rightarrow> real \<Rightarrow> error + real" where
  "mul64 p q = finite64 (fl (p * q))"

definition sqrt64 :: "real \<Rightarrow> error + real" where
  "sqrt64 y = (if y < 0 then Inl DomainError else finite64 (fl (sqrt y)))"

definition inv64 :: "real \<Rightarrow> error + real" where
  "inv64 y = (if y = 0 then Inl NonFinite else finite64 (fl (1 / y)))"

definition G64 :: real where
  "G64 = fl (6.67430 / 10 ^ 11)"

definition SOFTENING64 :: real where
  "SOFTENING64 = fl (10 ^ 3)"

definition add_at64 :: "real list list \<Rightarrow> nat \<Rightarrow> nat \<Rightarrow> real \<Rightarrow> error + real list list" where
  "add_at64 a i d y =
     bind_res (getindex a i) (\<lambda>ai.
     bind_res (getindex ai d) (\<lambda>aid.
     bind_res (add64 aid y) (\<lambda>s.
     bind_res (setindex ai s d) (\<lambda>ai'.
     setindex a ai' i))))"

definition displacement64 :: "real list \<Rightarrow> real list \<Rightarrow> nat \<Rightarrow> real list \<times> real \<Rightarrow> error + real list \<times> real" where
  "displacement64 xi xj d = (\<lambda>(rvec, r2).
     bind_res (getindex xj d) (\<lambda>xjd.
     bind_res (getindex xi d) (\<lambda>xid.
     bind_res (sub64 xjd xid) (\<lambda>diff.
     bind_res (setindex rvec diff d) (\<lambda>rvec'.
     bind_res (getindex rvec' d) (\<lambda>rd.
     bind_res (mul64 rd rd) (\<lambda>sq.
     bind_res (add64 r2 sq) (\<lambda>r2'.
     Inr (rvec', r2')))))))))"

definition accumulate64 :: "nat \<Rightarrow> nat \<Rightarrow> real \<Rightarrow> real \<Rightarrow> real list \<Rightarrow> nat \<Rightarrow> real list list \<Rightarrow> error + real list list" where
  "accumulate64 i j fac_i fac_j rvec d a =
     bind_res (getindex rvec d) (\<lambda>rd.
     bind_res (mul64 fac_i rd) (\<lambda>yi.
     bind_res (add_at64 a i d yi) (\<lambda>a'.
     bind_res (getindex rvec d) (\<lambda>rd'.
     bind_res (mul64 fac_j rd') (\<lambda>yj.
     add_at64 a' j d yj)))))"

definition pair_force64 :: "Body list \<Rightarrow> real \<Rightarrow> nat \<Rightarrow> real list \<Rightarrow> real \<Rightarrow> nat \<Rightarrow> real list list \<Rightarrow> error + real list list" where
  "pair_force64 bodies \<epsilon>2 i xi mi j a =
     bind_res (getindex bodies j) (\<lambda>bj.
     let xj = x bj; mj = m bj in
     bind_res (foreach (unit_range 1 (int NDIM)) (displacement64 xi xj) (similar xi, 0)) (\<lambda>(rvec, r2).
     bind_res (add64 r2 \<epsilon>2) (\<lambda>r2e.
     bind_res (sqrt64 r2e) (\<lambda>s.
     bind_res (mul64 s r2e) (\<lambda>den.
     bind_res (inv64 den) (\<lambda>invr3.
     bind_res (mul64 G64 mj) (\<lambda>gj.
     bind_res (mul64 gj invr3) (\<lambda>fac_i.
     bind_res (mul64 (- G64) mi) (\<lambda>gi.
     bind_res (mul64 gi invr3) (\<lambda>fac_j.
     foreach (unit_range 1 (int NDIM)) (accumulate64 i j fac_i fac_j rvec) a))))))))))"

definition accelerations64 :: "real list list \<Rightarrow> Body list \<Rightarrow> error + real list list" where
  "accelerations64 a bodies =
     (let N = length bodies in
      bind_res (foreach (unit_range 1 (int N))
                 (\<lambda>i a. bind_res (getindex a i) (\<lambda>ai. setindex a (fill ai 0) i)) a) (\<lambda>a.
      bind_res (mul64 SOFTENING64 SOFTENING64) (\<lambda>\<epsilon>2.
      foreach (unit_range 1 (int N - 1))
        (\<lambda>i a. bind_res (getindex bodies i) (\<lambda>bi.
                let xi = x bi; mi = m bi in
                foreach (unit_range (i + 1) (int N)) (pair_force64 bodies \<epsilon>2 i xi mi) a)) a)))"

section \<open>The files written by \<^verbatim>\<open>main\<close>\<close>

text \<open>
  The output of \<^verbatim>\<open>main\<close>. A file is the list of its lines. \<^verbatim>\<open>@printf\<close> with \<^verbatim>\<open>%.6f\<close> prints a
  number rounded to six decimals; with \<^verbatim>\<open>%.10e\<close> it prints one digit, the point, ten more
  digits and a signed exponent of at least two digits. Numbers are reals here, so the
  texts \<^verbatim>\<open>Inf\<close> and \<^verbatim>\<open>NaN\<close> do not occur.
\<close>

definition digit_char :: "nat \<Rightarrow> char" where
  "digit_char k = ''0123456789'' ! (k mod 10)"

definition is_digit :: "char \<Rightarrow> bool" where
  "is_digit c \<longleftrightarrow> c \<in> set ''0123456789''"

text \<open>The last \<open>n\<close> decimal digits of \<open>k\<close>, and all of them (\<^verbatim>\<open>string(k)\<close>).\<close>

fun pad :: "nat \<Rightarrow> nat \<Rightarrow> string" where
  "pad 0 k = []"
| "pad (Suc n) k = pad n (k div 10) @ [digit_char k]"

fun show_nat :: "nat \<Rightarrow> string" where
  "show_nat k = (if k < 10 then [digit_char k] else show_nat (k div 10) @ [digit_char k])"

declare show_nat.simps [simp del]

definition sign_of :: "real \<Rightarrow> string" where
  "sign_of y = (if y < 0 then ''-'' else [])"

text \<open>\<^verbatim>\<open>%.Pf\<close> and \<^verbatim>\<open>%.Pe\<close>\<close>

definition fmt_f :: "nat \<Rightarrow> real \<Rightarrow> string" where
  "fmt_f P y =
     (let n = nat (round_even (\<bar>y\<bar> * 10 ^ P))
      in sign_of y @ show_nat (n div 10 ^ P) @ ''.'' @ pad P (n mod 10 ^ P))"

definition fmt_e :: "nat \<Rightarrow> real \<Rightarrow> string" where
  "fmt_e P y =
     (let e0 = (if y = 0 then 0 else \<lfloor>log 10 \<bar>y\<bar>\<rfloor>);
          n0 = nat (round_even (\<bar>y\<bar> * (if 0 \<le> e0 then 1 / 10 ^ nat e0 else 10 ^ nat (- e0)) * 10 ^ P));
          n = (if n0 = 10 ^ (P + 1) then 10 ^ P else n0);
          e = (if n0 = 10 ^ (P + 1) then e0 + 1 else e0)
      in sign_of y @ [digit_char (n div 10 ^ P)] @ ''.'' @ pad P (n mod 10 ^ P) @ ''e'' @
         (if e < 0 then ''-'' else ''+'') @ (if \<bar>e\<bar> < 10 then ''0'' else []) @ show_nat (nat \<bar>e\<bar>))"

text \<open>\<^verbatim>\<open>join(strings, delim)\<close>\<close>

fun join :: "string list \<Rightarrow> string \<Rightarrow> string" where
  "join [] delim = []"
| "join [s] delim = s"
| "join (s # ss) delim = s @ delim @ join ss delim"

text \<open>The block that writes \<^verbatim>\<open>energies.csv\<close>.\<close>

definition energies_csv :: "real list \<Rightarrow> real list \<Rightarrow> string list" where
  "energies_csv ts es =
     ''t,E'' # map (\<lambda>(t, E). fmt_f 6 t @ '','' @ fmt_e 10 E) (zip ts es)"

text \<open>The block that writes \<^verbatim>\<open>positions.csv\<close>: the header, and for the \<open>k\<close>-th time the row of
  \<^verbatim>\<open>samples[k]\<close>.\<close>

definition positions_header :: "nat \<Rightarrow> string" where
  "positions_header N =
     ''t,'' @ join (concat (map (\<lambda>i. map (\<lambda>d. ''x'' @ show_nat i @ ''_'' @ show_nat d)
                                       (unit_range 1 (int NDIM)))
                               (unit_range 1 (int N)))) '',''"

definition positions_csv :: "nat \<Rightarrow> real list \<Rightarrow> real list list \<Rightarrow> error + string list" where
  "positions_csv N ts ss =
     foreach (zip (unit_range 1 (int (length ts))) ts)
       (\<lambda>(k, t) lines. bind_res (getindex ss k) (\<lambda>pos.
          Inr (lines @ [fmt_f 6 t @ concat (map (\<lambda>c. '','' @ fmt_e 10 c) pos)])))
       [positions_header N]"

definition main :: "error + string list \<times> string list" where
  "main =
     (let bodies = two_body_demo in
      bind_res (simulate bodies DT NSTEPS OUTPUT_EVERY) (\<lambda>(tr, bodies).
      bind_res (positions_csv (length bodies) (times tr) (samples tr)) (\<lambda>ps.
      Inr (energies_csv (times tr) (energies tr), ps))))"

text \<open>Reading a printed number back: the digits after the point, and the number of
  digits of the mantissa.\<close>

definition decimals :: "string \<Rightarrow> string" where
  "decimals s = takeWhile is_digit (drop 1 (dropWhile (\<lambda>c. c \<noteq> CHR ''.'') s))"

definition significant :: "string \<Rightarrow> nat" where
  "significant s = length (filter is_digit (takeWhile (\<lambda>c. c \<noteq> CHR ''e'') s))"

section \<open>Basic facts about the primitives\<close>


lemma bind_res_Inr [simp]: "bind_res (Inr y) f = f y"
  by (simp add: bind_res_def)

lemma bind_res_Inl [simp]: "bind_res (Inl e) f = Inl e"
  by (simp add: bind_res_def)

lemma getindex_ok: "1 \<le> i \<Longrightarrow> i \<le> length xs \<Longrightarrow> getindex xs i = Inr (xs ! (i - 1))"
  by (simp add: getindex_def)

lemma setindex_ok: "1 \<le> i \<Longrightarrow> i \<le> length xs \<Longrightarrow> setindex xs y i = Inr (xs[i - 1 := y])"
  by (simp add: setindex_def)

lemma unit_range_NDIM: "unit_range (Suc 0) (int NDIM) = [1, 2]"
  by (simp add: unit_range_def NDIM_def upt_rec)

lemma unit_range_set: "set (unit_range lo (int hi)) = {lo..hi}"
  by (auto simp: unit_range_def)

lemma foreach_append: "foreach (ks @ ls) body s = bind_res (foreach ks body s) (foreach ls body)"
  by (induction ks arbitrary: s) (auto simp: bind_res_def split: sum.splits)

lemma add_at_ok:
  assumes "1 \<le> i" "i \<le> length a" "1 \<le> d" "d \<le> length (a ! (i - 1))"
  shows "add_at a i d y = Inr (a[i - 1 := (a ! (i - 1))[d - 1 := a ! (i - 1) ! (d - 1) + y]])"
  using assms by (simp add: add_at_def getindex_ok setindex_ok)

lemma len2: "length (r::real list) = 2 \<Longrightarrow> r = [r ! 0, r ! 1]"
  by (cases r; cases "tl r"; auto)

lemma displacement_loop:
  assumes "length xi = 2" "length xj = 2"
  shows "foreach (unit_range 1 (int NDIM)) (displacement xi xj) (similar xi, 0) =
         Inr ([xj ! 0 - xi ! 0, xj ! 1 - xi ! 1], (xj ! 0 - xi ! 0) * (xj ! 0 - xi ! 0) + (xj ! 1 - xi ! 1) * (xj ! 1 - xi ! 1))"
  using assms by (simp add: unit_range_NDIM displacement_def similar_def getindex_def setindex_def numeral_2_eq_2)

lemma soft_pos: "0 < soft bodies p q"
proof -
  have "0 \<le> (\<Sum>c<NDIM. (x (bodies ! q) ! c - x (bodies ! p) ! c)\<^sup>2)"
    by (rule sum_nonneg) simp
  moreover have "0 < SOFTENING\<^sup>2"
    by (simp add: SOFTENING_def)
  ultimately show ?thesis
    unfolding soft_def by linarith
qed

lemma soft_sym: "soft bodies p q = soft bodies q p"
  by (simp add: soft_def power2_commute)

lemma shaped_nth: "shaped a N \<Longrightarrow> k < N \<Longrightarrow> length (a ! k) = 2"
  by (auto simp: shaped_def NDIM_def)

lemma sum_NDIM: "(\<Sum>c<NDIM. f c) = f 0 + f 1"
  by (simp add: NDIM_def lessThan_Suc numeral_2_eq_2 add.commute)

lemma accumulate_loop:
  assumes "shaped a N" "1 \<le> i" "i < j" "j \<le> N"
  shows "\<exists>a'. foreach (unit_range 1 (int NDIM)) (accumulate i j fi fj [r0, r1]) a = Inr a' \<and> shaped a' N \<and>
           (\<forall>k<N. \<forall>c<2. a' ! k ! c = a ! k ! c +
               ((if k = i - 1 then fi * [r0, r1] ! c else 0) + (if k = j - 1 then fj * [r0, r1] ! c else 0)))"
proof -
  have la: "length a = N" and li: "length (a ! (i - 1)) = 2" and lj: "length (a ! (j - 1)) = 2"
    using assms by (auto simp: shaped_def NDIM_def)
  have ne: "i - 1 \<noteq> j - 1" using assms by simp
  show ?thesis
    using assms la li lj ne
    apply (simp add: unit_range_NDIM accumulate_def getindex_def add_at_ok nth_list_update)
    apply (auto simp: shaped_def NDIM_def nth_list_update less_2_cases_iff dest!: set_update_subset_insert[THEN subsetD])
    done
qed

lemma well_formed_nth: "well_formed bodies \<Longrightarrow> k < length bodies \<Longrightarrow> length (x (bodies ! k)) = 2 \<and> length (v (bodies ! k)) = 2"
  by (auto simp: well_formed_def NDIM_def)

lemma pair_force_ok:
  assumes wf: "well_formed bodies" and sh: "shaped a (length bodies)"
    and ij: "1 \<le> i" "i < j" "j \<le> length bodies"
  shows "\<exists>a'. pair_force bodies (SOFTENING\<^sup>2) i (x (bodies ! (i - 1))) (m (bodies ! (i - 1))) j a = Inr a' \<and>
           shaped a' (length bodies) \<and>
           (\<forall>k<length bodies. \<forall>c<2. a' ! k ! c = a ! k ! c + contrib bodies (i - 1) (j - 1) k c)"
proof -
  let ?p = "i - 1" and ?q = "j - 1"
  let ?xi = "x (bodies ! ?p)" and ?xj = "x (bodies ! ?q)"
  have lx: "length ?xi = 2" "length ?xj = 2"
    using wf ij by (simp_all add: well_formed_nth)
  let ?r0 = "?xj ! 0 - ?xi ! 0" and ?r1 = "?xj ! 1 - ?xi ! 1"
  have r2: "?r0 * ?r0 + ?r1 * ?r1 + SOFTENING\<^sup>2 = soft bodies ?p ?q"
    by (simp add: soft_def sum_NDIM power2_eq_square)
  have pos: "sqrt (soft bodies ?p ?q) * soft bodies ?p ?q \<noteq> 0"
    using soft_pos [of bodies ?p ?q] by simp
  let ?fi = "G * m (bodies ! ?q) * (1 / (sqrt (soft bodies ?p ?q) * soft bodies ?p ?q))"
  let ?fj = "- G * m (bodies ! ?p) * (1 / (sqrt (soft bodies ?p ?q) * soft bodies ?p ?q))"
  have gj: "getindex bodies j = Inr (bodies ! ?q)"
    using ij by (simp add: getindex_ok)
  have iv: "inv_f (sqrt (soft bodies ?p ?q) * soft bodies ?p ?q) = Inr (1 / (sqrt (soft bodies ?p ?q) * soft bodies ?p ?q))"
    using pos by (simp add: inv_f_def)
  have sq: "sqrt_f (soft bodies ?p ?q) = Inr (sqrt (soft bodies ?p ?q))"
    using soft_pos [of bodies ?p ?q] by (simp add: sqrt_f_def)
  have eq: "pair_force bodies (SOFTENING\<^sup>2) i ?xi (m (bodies ! ?p)) j a =
            foreach (unit_range 1 (int NDIM)) (accumulate i j ?fi ?fj [?r0, ?r1]) a"
    by (simp only: pair_force_def gj bind_res_Inr Let_def displacement_loop [OF lx] prod.case r2 sq iv)
  obtain a' where a': "foreach (unit_range 1 (int NDIM)) (accumulate i j ?fi ?fj [?r0, ?r1]) a = Inr a'"
      "shaped a' (length bodies)"
      "\<forall>k<length bodies. \<forall>c<2. a' ! k ! c = a ! k ! c +
               ((if k = ?p then ?fi * [?r0, ?r1] ! c else 0) + (if k = ?q then ?fj * [?r0, ?r1] ! c else 0))"
    using accumulate_loop [OF sh ij, of ?fi ?fj ?r0 ?r1] by blast
  have ne: "?p \<noteq> ?q" using ij by simp
  have "a' ! k ! c = a ! k ! c + contrib bodies ?p ?q k c" if "k < length bodies" "c < 2" for k c
  proof -
    have rc: "[?r0, ?r1] ! c = ?xj ! c - ?xi ! c"
      using that(2) by (cases c) (auto simp: less_Suc_eq)
    have "a' ! k ! c = a ! k ! c +
               ((if k = ?p then ?fi * [?r0, ?r1] ! c else 0) + (if k = ?q then ?fj * [?r0, ?r1] ! c else 0))"
      using a'(3) that by blast
    then show ?thesis
      unfolding rc contrib_def .
  qed
  with a' eq show ?thesis by simp
qed

lemma foreach_accum:
  fixes val :: "'s \<Rightarrow> 'k \<Rightarrow> real"
  assumes step: "\<And>i s. i \<in> set ks \<Longrightarrow> P s \<Longrightarrow>
                   \<exists>s'. body i s = Inr s' \<and> P s' \<and> (\<forall>k. K k \<longrightarrow> val s' k = val s k + g i k)"
    and init: "P s"
  shows "\<exists>s'. foreach ks body s = Inr s' \<and> P s' \<and> (\<forall>k. K k \<longrightarrow> val s' k = val s k + (\<Sum>i\<leftarrow>ks. g i k))"
  using assms
proof (induction ks arbitrary: s)
  case Nil
  then show ?case by simp
next
  case (Cons i ks)
  obtain s1 where s1: "body i s = Inr s1" "P s1" "\<forall>k. K k \<longrightarrow> val s1 k = val s k + g i k"
    using Cons.prems(1) [of i s] Cons.prems(2) by auto
  have "\<exists>s'. foreach ks body s1 = Inr s' \<and> P s' \<and> (\<forall>k. K k \<longrightarrow> val s' k = val s1 k + (\<Sum>i\<leftarrow>ks. g i k))"
    using Cons.IH [OF _ s1(2)] Cons.prems(1) by simp
  then obtain s2 where s2: "foreach ks body s1 = Inr s2" "P s2"
      "\<forall>k. K k \<longrightarrow> val s2 k = val s1 k + (\<Sum>i\<leftarrow>ks. g i k)"
    by blast
  show ?case
    using s1 s2 by (simp add: add.assoc)
qed

lemma foreach_pointwise_upto:
  assumes step: "\<And>i s. 1 \<le> i \<Longrightarrow> i \<le> n \<Longrightarrow> length s = n \<Longrightarrow> body i s = Inr (s[i - 1 := f (i - 1) (s ! (i - 1))])"
    and len: "length s = n" and j: "j \<le> n"
  shows "foreach [1..<Suc j] body s = Inr (map (\<lambda>k. if k < j then f k (s ! k) else s ! k) [0..<n])"
  using j
proof (induction j)
  case 0
  show ?case using len by (auto intro!: nth_equalityI)
next
  case (Suc j)
  let ?s1 = "map (\<lambda>k. if k < j then f k (s ! k) else s ! k) [0..<n]"
  have IH: "foreach [1..<Suc j] body s = Inr ?s1"
    using Suc by simp
  have sp: "[1..<Suc (Suc j)] = [1..<Suc j] @ [Suc j]"
    by simp
  have st: "body (Suc j) ?s1 = Inr (?s1[j := f j (?s1 ! j)])"
    using step [of "Suc j" ?s1] Suc.prems by simp
  have "?s1[j := f j (?s1 ! j)] = map (\<lambda>k. if k < Suc j then f k (s ! k) else s ! k) [0..<n]"
    using Suc.prems by (intro nth_equalityI) (simp_all add: nth_list_update less_Suc_eq)
  then show ?case
    by (simp only: sp foreach_append IH bind_res_Inr foreach.simps st)
qed

lemma foreach_pointwise:
  assumes step: "\<And>i s. 1 \<le> i \<Longrightarrow> i \<le> n \<Longrightarrow> length s = n \<Longrightarrow> body i s = Inr (s[i - 1 := f (i - 1) (s ! (i - 1))])"
    and len: "length s = n"
  shows "foreach (unit_range 1 (int n)) body s = Inr (map (\<lambda>k. f k (s ! k)) [0..<n])"
proof -
  have ur: "unit_range 1 (int n) = [1..<Suc n]"
    by (simp add: unit_range_def nat_add_distrib)
  have mp: "map (\<lambda>k. if k < n then f k (s ! k) else s ! k) [0..<n] = map (\<lambda>k. f k (s ! k)) [0..<n]"
    by simp
  have "foreach [1..<Suc n] body s = Inr (map (\<lambda>k. if k < n then f k (s ! k) else s ! k) [0..<n])"
    by (rule foreach_pointwise_upto [OF step len order_refl])
  then show ?thesis
    by (simp only: ur mp)
qed


lemma pull_antisym: "pull bodies q p c = - pull bodies p q c"
  by (simp add: pull_def soft_sym [of bodies q p] algebra_simps)

lemma contrib_pull:
  "contrib bodies p q k c =
     (if k = p then m (bodies ! q) * pull bodies p q c else 0) +
     (if k = q then m (bodies ! p) * pull bodies q p c else 0)"
  unfolding pull_antisym [of bodies q p] by (simp add: contrib_def pull_def)

lemma unit_range_outer: "unit_range 1 (int (Suc n) - 1) = map Suc [0..<n]"
proof -
  have "nat (int (Suc n) - 1 + 1) = Suc n"
    by simp
  then show ?thesis
    by (simp only: unit_range_def map_Suc_upt One_nat_def)
qed

lemma unit_range_inner: "unit_range (Suc p + 1) (int (Suc n)) = map Suc [Suc p..<Suc n]"
proof -
  have "nat (int (Suc n) + 1) = Suc (Suc n)"
    by simp
  then show ?thesis
    by (simp only: unit_range_def map_Suc_upt Suc_eq_plus1)
qed

lemma pair_sum:
  assumes "k < Suc n"
  shows "(\<Sum>p = 0..<n. \<Sum>q = Suc p..<Suc n. contrib bodies p q k c) =
         (\<Sum>q \<in> {..<Suc n} - {k}. m (bodies ! q) * pull bodies k q c)"
proof -
  let ?f = "\<lambda>q. m (bodies ! q) * pull bodies k q c"
  have fst: "(\<Sum>p = 0..<n. \<Sum>q = Suc p..<Suc n. if k = p then m (bodies ! q) * pull bodies p q c else 0) =
             sum ?f {Suc k..<Suc n}"
  proof -
    have "(\<Sum>p = 0..<n. \<Sum>q = Suc p..<Suc n. if k = p then m (bodies ! q) * pull bodies p q c else 0) =
          (\<Sum>p = 0..<n. if k = p then sum ?f {Suc p..<Suc n} else 0)"
      by (rule sum.cong) auto
    also have "\<dots> = (if k \<in> {0..<n} then sum ?f {Suc k..<Suc n} else 0)"
      by (simp add: sum.delta')
    also have "\<dots> = sum ?f {Suc k..<Suc n}"
      using assms by auto
    finally show ?thesis .
  qed
  have snd: "(\<Sum>p = 0..<n. \<Sum>q = Suc p..<Suc n. if k = q then m (bodies ! p) * pull bodies q p c else 0) =
             sum ?f {0..<k}"
  proof -
    have "(\<Sum>p = 0..<n. \<Sum>q = Suc p..<Suc n. if k = q then m (bodies ! p) * pull bodies q p c else 0) =
          (\<Sum>p = 0..<n. if p < k then ?f p else 0)"
      using assms by (intro sum.cong refl) (auto simp: sum.delta')
    also have "\<dots> = sum ?f {p \<in> {0..<n}. p < k}"
      by (rule sum.inter_filter [symmetric]) simp
    also have "{p \<in> {0..<n}. p < k} = {0..<k}"
      using assms by auto
    finally show ?thesis .
  qed
  have un: "{..<Suc n} - {k} = {0..<k} \<union> {Suc k..<Suc n}"
    using assms by auto
  have "sum ?f ({..<Suc n} - {k}) = sum ?f {0..<k} + sum ?f {Suc k..<Suc n}"
    unfolding un by (rule sum.union_disjoint) auto
  moreover have "(\<Sum>p = 0..<n. \<Sum>q = Suc p..<Suc n. contrib bodies p q k c) =
      sum ?f {Suc k..<Suc n} + sum ?f {0..<k}"
    by (simp only: contrib_pull sum.distrib fst snd)
  ultimately show ?thesis
    by (simp only: add.commute)
qed


lemma list_sum_pairs:
  "(\<Sum>i\<leftarrow>unit_range 1 (int (Suc n) - 1). \<Sum>j\<leftarrow>unit_range (i + 1) (int (Suc n)). f (i - 1) (j - 1)) =
   (\<Sum>p = 0..<n. \<Sum>q = Suc p..<Suc n. f p q)"
proof -
  have inner: "(\<Sum>j\<leftarrow>unit_range (Suc p + 1) (int (Suc n)). f (Suc p - 1) (j - 1)) =
               (\<Sum>q = Suc p..<Suc n. f p q)" for p
  proof -
    have "(\<Sum>j\<leftarrow>map Suc [Suc p..<Suc n]. f p (j - 1)) = (\<Sum>q\<leftarrow>[Suc p..<Suc n]. f p q)"
      by (simp only: map_map comp_def diff_Suc_1)
    then show ?thesis
      by (simp only: unit_range_inner diff_Suc_1 interv_sum_list_conv_sum_set_nat set_upt)
  qed
  have "(\<Sum>i\<leftarrow>map Suc [0..<n]. \<Sum>j\<leftarrow>unit_range (i + 1) (int (Suc n)). f (i - 1) (j - 1)) =
        (\<Sum>p\<leftarrow>[0..<n]. \<Sum>j\<leftarrow>unit_range (Suc p + 1) (int (Suc n)). f (Suc p - 1) (j - 1))"
    by (simp only: map_map comp_def)
  then show ?thesis
    by (simp only: unit_range_outer inner interv_sum_list_conv_sum_set_nat set_upt)
qed

lemma zero_loop:
  assumes "shaped a N"
  shows "foreach (unit_range 1 (int N)) (\<lambda>i a. bind_res (getindex a i) (\<lambda>ai. setindex a (fill ai 0) i)) a =
         Inr (replicate N (replicate NDIM 0))"
proof -
  have "foreach (unit_range 1 (int N)) (\<lambda>i a. bind_res (getindex a i) (\<lambda>ai. setindex a (fill ai 0) i)) a =
        Inr (map (\<lambda>k. fill (a ! k) 0) [0..<N])"
    using assms by (intro foreach_pointwise) (simp_all add: getindex_ok setindex_ok shaped_def)
  moreover have "map (\<lambda>k. fill (a ! k) 0) [0..<N] = replicate N (replicate NDIM 0)"
    using assms by (intro nth_equalityI) (simp_all add: fill_def shaped_def)
  ultimately show ?thesis by simp
qed

lemma shaped_zero: "shaped (replicate N (replicate NDIM 0)) N"
  by (simp add: shaped_def)

lemma inner_loop:
  assumes wf: "well_formed bodies" and sh: "shaped a (length bodies)"
    and i: "1 \<le> i" "i < length bodies"
  shows "\<exists>a'. foreach (unit_range (i + 1) (int (length bodies)))
                 (pair_force bodies (SOFTENING\<^sup>2) i (x (bodies ! (i - 1))) (m (bodies ! (i - 1)))) a = Inr a' \<and>
              shaped a' (length bodies) \<and>
              (\<forall>kc. fst kc < length bodies \<and> snd kc < 2 \<longrightarrow>
                 a' ! fst kc ! snd kc = a ! fst kc ! snd kc +
                   (\<Sum>j\<leftarrow>unit_range (i + 1) (int (length bodies)). contrib bodies (i - 1) (j - 1) (fst kc) (snd kc)))"
proof (rule foreach_accum [where P = "\<lambda>a. shaped a (length bodies)" and val = "\<lambda>a kc. a ! fst kc ! snd kc"])
  show "shaped a (length bodies)" by (rule sh)
next
  fix j s
  assume j: "j \<in> set (unit_range (i + 1) (int (length bodies)))" and s: "shaped s (length bodies)"
  have "i < j" "j \<le> length bodies"
    using j by (auto simp: unit_range_def)
  from pair_force_ok [OF wf s i(1) this]
  show "\<exists>s'. pair_force bodies (SOFTENING\<^sup>2) i (x (bodies ! (i - 1))) (m (bodies ! (i - 1))) j s = Inr s' \<and>
            shaped s' (length bodies) \<and>
            (\<forall>kc. fst kc < length bodies \<and> snd kc < 2 \<longrightarrow>
               s' ! fst kc ! snd kc = s ! fst kc ! snd kc + contrib bodies (i - 1) (j - 1) (fst kc) (snd kc))"
    by blast
qed


lemma outer_loop:
  assumes wf: "well_formed bodies" and sh: "shaped a (length bodies)"
  shows "\<exists>a'. foreach (unit_range 1 (int (length bodies) - 1))
                 (\<lambda>i a. bind_res (getindex bodies i) (\<lambda>bi.
                    let xi = x bi; mi = m bi in
                    foreach (unit_range (i + 1) (int (length bodies))) (pair_force bodies (SOFTENING\<^sup>2) i xi mi) a)) a = Inr a' \<and>
              shaped a' (length bodies) \<and>
              (\<forall>kc. fst kc < length bodies \<and> snd kc < 2 \<longrightarrow>
                 a' ! fst kc ! snd kc = a ! fst kc ! snd kc +
                   (\<Sum>i\<leftarrow>unit_range 1 (int (length bodies) - 1).
                      \<Sum>j\<leftarrow>unit_range (i + 1) (int (length bodies)). contrib bodies (i - 1) (j - 1) (fst kc) (snd kc)))"
proof (rule foreach_accum [where P = "\<lambda>a. shaped a (length bodies)" and val = "\<lambda>a kc. a ! fst kc ! snd kc"])
  show "shaped a (length bodies)" by (rule sh)
next
  fix i s
  assume i: "i \<in> set (unit_range 1 (int (length bodies) - 1))" and s: "shaped s (length bodies)"
  have i': "1 \<le> i" "i < length bodies"
    using i by (auto simp: unit_range_def)
  have "getindex bodies i = Inr (bodies ! (i - 1))"
    using i' by (simp add: getindex_ok)
  then have "bind_res (getindex bodies i) (\<lambda>bi.
                    let xi = x bi; mi = m bi in
                    foreach (unit_range (i + 1) (int (length bodies))) (pair_force bodies (SOFTENING\<^sup>2) i xi mi) s) =
             foreach (unit_range (i + 1) (int (length bodies)))
                 (pair_force bodies (SOFTENING\<^sup>2) i (x (bodies ! (i - 1))) (m (bodies ! (i - 1)))) s"
    by (simp only: bind_res_Inr Let_def)
  with inner_loop [OF wf s i']
  show "\<exists>s'. bind_res (getindex bodies i) (\<lambda>bi.
                    let xi = x bi; mi = m bi in
                    foreach (unit_range (i + 1) (int (length bodies))) (pair_force bodies (SOFTENING\<^sup>2) i xi mi) s) = Inr s' \<and>
            shaped s' (length bodies) \<and>
            (\<forall>kc. fst kc < length bodies \<and> snd kc < 2 \<longrightarrow>
               s' ! fst kc ! snd kc = s ! fst kc ! snd kc +
                 (\<Sum>j\<leftarrow>unit_range (i + 1) (int (length bodies)). contrib bodies (i - 1) (j - 1) (fst kc) (snd kc)))"
    by simp
qed

lemma accelerations_closed:
  assumes wf: "well_formed bodies" and sh: "shaped a (length bodies)"
  shows "accelerations a bodies = Inr (kernel bodies)"
proof -
  let ?N = "length bodies"
  let ?z = "replicate ?N (replicate NDIM (0::real))"
  obtain a' where a': "foreach (unit_range 1 (int ?N - 1))
                 (\<lambda>i a. bind_res (getindex bodies i) (\<lambda>bi.
                    let xi = x bi; mi = m bi in
                    foreach (unit_range (i + 1) (int ?N)) (pair_force bodies (SOFTENING\<^sup>2) i xi mi) a)) ?z = Inr a'"
      "shaped a' ?N"
      "\<forall>kc. fst kc < ?N \<and> snd kc < 2 \<longrightarrow>
                 a' ! fst kc ! snd kc = ?z ! fst kc ! snd kc +
                   (\<Sum>i\<leftarrow>unit_range 1 (int ?N - 1).
                      \<Sum>j\<leftarrow>unit_range (i + 1) (int ?N). contrib bodies (i - 1) (j - 1) (fst kc) (snd kc))"
    using outer_loop [OF wf shaped_zero] by blast
  have run: "accelerations a bodies = Inr a'"
    using a'(1) by (simp only: accelerations_def Let_def zero_loop [OF sh] bind_res_Inr)
  have val: "a' ! k ! c = (\<Sum>q \<in> {..<?N} - {k}. m (bodies ! q) * pull bodies k q c)"
    if "k < ?N" "c < 2" for k c
  proof -
    have "0 < ?N"
      using that(1) by (cases bodies) auto
    then obtain n where n: "?N = Suc n"
      by (auto simp: gr0_conv_Suc)
    have "a' ! k ! c = ?z ! k ! c +
                   (\<Sum>i\<leftarrow>unit_range 1 (int ?N - 1).
                      \<Sum>j\<leftarrow>unit_range (i + 1) (int ?N). contrib bodies (i - 1) (j - 1) k c)"
      using a'(3) that by fastforce
    also have "?z ! k ! c = 0"
      using that by (simp add: NDIM_def)
    also have "(\<Sum>i\<leftarrow>unit_range 1 (int ?N - 1).
                      \<Sum>j\<leftarrow>unit_range (i + 1) (int ?N). contrib bodies (i - 1) (j - 1) k c) =
               (\<Sum>p = 0..<n. \<Sum>q = Suc p..<Suc n. contrib bodies p q k c)"
      unfolding n by (rule list_sum_pairs)
    also have "\<dots> = (\<Sum>q \<in> {..<Suc n} - {k}. m (bodies ! q) * pull bodies k q c)"
      using that(1) n by (intro pair_sum) simp
    finally show ?thesis
      by (simp add: n)
  qed
  have "a' = kernel bodies"
    unfolding kernel_def
    using a'(2) val by (intro nth_equalityI) (auto simp: shaped_def NDIM_def)
  with run show ?thesis by simp
qed




lemma powr_three_halves: "0 < s \<Longrightarrow> s powr (3 / 2) = sqrt s * (s::real)"
proof -
  assume s: "0 < s"
  have "s powr (3 / 2) = s powr (1 / 2 + 1)"
    by simp
  also have "\<dots> = s powr (1 / 2) * s powr 1"
    by (rule powr_add)
  also have "\<dots> = sqrt s * s"
    using s by (simp add: powr_half_sqrt)
  finally show ?thesis .
qed

lemma spec_acceleration_pull:
  "spec_acceleration bodies i c = (\<Sum>q \<in> {..<length bodies} - {i}. m (bodies ! q) * pull bodies i q c)"
proof -
  have "G * m (bodies ! q) * (x (bodies ! q) ! c - x (bodies ! i) ! c) /
        ((\<Sum>d<NDIM. (x (bodies ! q) ! d - x (bodies ! i) ! d)\<^sup>2) + SOFTENING\<^sup>2) powr (3 / 2) =
        m (bodies ! q) * pull bodies i q c" for q
    using powr_three_halves [OF soft_pos, of bodies i q]
    by (simp add: pull_def soft_def)
  then show ?thesis
    by (simp add: spec_acceleration_def)
qed

lemma kernel_spec: "kernel bodies = map (\<lambda>i. map (spec_acceleration bodies i) [0..<NDIM]) [0..<length bodies]"
  by (simp add: kernel_def spec_acceleration_pull)

lemma kernel_two:
  "kernel [b1, b2] = [[m b2 * pull [b1, b2] 0 1 0, m b2 * pull [b1, b2] 0 1 1],
                      [m b1 * pull [b1, b2] 1 0 0, m b1 * pull [b1, b2] 1 0 1]]"
proof -
  have "{..<2::nat} - {0} = {1}" "{..<2::nat} - {1} = {0}"
    by auto
  then show ?thesis
    by (simp add: kernel_def NDIM_def upt_rec numeral_2_eq_2)
qed

lemma bind_res_neq:
  assumes "r \<noteq> Inl e" and "\<And>y. r = Inr y \<Longrightarrow> f y \<noteq> Inl e"
  shows "bind_res r f \<noteq> Inl e"
  using assms by (cases r) (auto simp: bind_res_def)

lemma foreach_neq:
  assumes "\<And>i s. P s \<Longrightarrow> body i s \<noteq> Inl e"
    and "\<And>i s s'. P s \<Longrightarrow> body i s = Inr s' \<Longrightarrow> P s'"
    and "P s"
  shows "foreach ks body s \<noteq> Inl e \<and> (\<forall>s'. foreach ks body s = Inr s' \<longrightarrow> P s')"
  using assms(3)
proof (induction ks arbitrary: s)
  case Nil
  then show ?case by simp
next
  case (Cons k ks)
  show ?case
  proof (cases "body k s")
    case (Inl e')
    then show ?thesis
      using assms(1) [OF Cons.prems, of k] by simp
  next
    case (Inr s1)
    then show ?thesis
      using Cons.IH [of s1] assms(2) [OF Cons.prems Inr] by simp
  qed
qed

lemma getindex_finite [simp]: "getindex xs i \<noteq> Inl NonFinite"
  by (simp add: getindex_def)

lemma setindex_finite [simp]: "setindex xs y i \<noteq> Inl NonFinite"
  by (simp add: setindex_def)

lemma bind_res_eq_Inl: "bind_res r f = Inl e \<longleftrightarrow> r = Inl e \<or> (\<exists>y. r = Inr y \<and> f y = Inl e)"
  by (cases r) (auto simp: bind_res_def)

lemma bind_res_eq_Inr: "bind_res r f = Inr z \<longleftrightarrow> (\<exists>y. r = Inr y \<and> f y = Inr z)"
  by (cases r) (auto simp: bind_res_def)

lemma add_at_finite [simp]: "add_at a i d y \<noteq> Inl NonFinite"
  by (simp add: add_at_def bind_res_eq_Inl)

lemma accumulate_finite: "accumulate i j fi fj rvec d a \<noteq> Inl NonFinite"
  by (simp add: accumulate_def bind_res_eq_Inl)

lemma displacement_finite: "displacement xi xj d s \<noteq> Inl NonFinite"
  by (cases s) (simp add: displacement_def bind_res_eq_Inl)

lemma displacement_nonneg:
  assumes "0 \<le> snd s" and "displacement xi xj d s = Inr s'"
  shows "0 \<le> snd s'"
  using assms
  by (cases s) (auto simp: displacement_def bind_res_eq_Inr)

lemma pair_force_finite:
  assumes "0 < \<epsilon>2"
  shows "pair_force bodies \<epsilon>2 i xi mi j a \<noteq> Inl NonFinite"
proof -
  have disp: "foreach (unit_range 1 (int NDIM)) (displacement xi xj) (similar xi, 0) \<noteq> Inl NonFinite \<and>
        (\<forall>s'. foreach (unit_range 1 (int NDIM)) (displacement xi xj) (similar xi, 0) = Inr s' \<longrightarrow> 0 \<le> snd s')" for xj
    by (rule foreach_neq [where P = "\<lambda>s. 0 \<le> snd s"])
       (simp_all add: displacement_finite displacement_nonneg)
  have acc: "foreach ks (accumulate i j fi fj rvec) a \<noteq> Inl NonFinite" for ks fi fj rvec
    using foreach_neq [where P = "\<lambda>s. True" and body = "accumulate i j fi fj rvec" and e = NonFinite]
    by (simp add: accumulate_finite)
  have inv: "inv_f (sqrt (r2 + \<epsilon>2) * (r2 + \<epsilon>2)) = Inr (1 / (sqrt (r2 + \<epsilon>2) * (r2 + \<epsilon>2)))" if "0 \<le> r2" for r2
    using that assms by (simp add: inv_f_def)
  have sq: "sqrt_f (r2 + \<epsilon>2) = Inr (sqrt (r2 + \<epsilon>2))" if "0 \<le> r2" for r2
    using that assms by (simp add: sqrt_f_def)
  have tail: "bind_res (sqrt_f (r2 + \<epsilon>2)) (\<lambda>s. bind_res (inv_f (s * (r2 + \<epsilon>2))) (\<lambda>invr3.
                foreach (unit_range 1 (int NDIM)) (accumulate i j (G * mj * invr3) (- G * mi * invr3) rvec) a)) \<noteq>
              Inl NonFinite" if "0 \<le> r2" for r2 rvec mj
    unfolding sq [OF that] inv [OF that] bind_res_Inr by (rule acc)
  show ?thesis
    unfolding pair_force_def Let_def
    apply (intro bind_res_neq)
    subgoal by simp
    subgoal using disp by blast
    subgoal for bj s using disp [of "x bj"] tail [of "snd s" "m bj" "fst s"] by (simp add: split_def del: One_nat_def)
    done
qed


lemma foreach_finite:
  assumes "\<And>i s. body i s \<noteq> Inl e"
  shows "foreach ks body s \<noteq> Inl e"
  using foreach_neq [where P = "\<lambda>s. True" and body = body and e = e] assms by simp

lemma SOFTENING_pos: "0 < SOFTENING\<^sup>2"
  by (simp add: SOFTENING_def)

lemma accelerations_finite: "accelerations a bodies \<noteq> Inl NonFinite"
  unfolding accelerations_def Let_def
  by (intro bind_res_neq foreach_finite pair_force_finite SOFTENING_pos) simp_all

lemma kinetic_finite: "kinetic bodies \<noteq> Inl NonFinite"
  unfolding kinetic_def
  by (intro bind_res_neq foreach_finite) simp_all

lemma potential_finite: "potential bodies \<noteq> Inl NonFinite"
proof -
  have r2: "foreach ks (\<lambda>d r2. bind_res (getindex xj d) (\<lambda>xjd. bind_res (getindex xi d) (\<lambda>xid.
                Inr (r2 + (xjd - xid)\<^sup>2)))) 0 \<noteq> Inl NonFinite \<and>
            (\<forall>r2'. foreach ks (\<lambda>d r2. bind_res (getindex xj d) (\<lambda>xjd. bind_res (getindex xi d) (\<lambda>xid.
                Inr (r2 + (xjd - xid)\<^sup>2)))) 0 = Inr r2' \<longrightarrow> 0 \<le> r2')" for ks and xi xj :: "real list"
    by (rule foreach_neq [where P = "\<lambda>r2. 0 \<le> r2"])
       (auto simp: bind_res_eq_Inl bind_res_eq_Inr)
  have sq: "sqrt_f y \<noteq> Inl NonFinite" for y
    by (simp add: sqrt_f_def)
  have dv: "div_f p s \<noteq> Inl NonFinite" if "0 \<le> r2" and "sqrt_f (r2 + SOFTENING\<^sup>2) = Inr s" for p r2 s
  proof -
    have "0 < r2 + SOFTENING\<^sup>2"
      using that(1) SOFTENING_pos by linarith
    then show ?thesis
      using that(2) by (auto simp: div_f_def sqrt_f_def split: if_splits)
  qed
  show ?thesis
    unfolding potential_def Let_def
    apply (intro bind_res_neq foreach_finite)
          apply (simp_all add: sq del: One_nat_def)
    using r2 dv apply blast
    done
qed

lemma total_energy_finite: "total_energy bodies \<noteq> Inl NonFinite"
  unfolding total_energy_def
  by (intro bind_res_neq kinetic_finite potential_finite) simp


lemma foreach_sum:
  fixes s :: real
  assumes "\<And>i s. i \<in> set ks \<Longrightarrow> body i s = Inr (s + g i)"
  shows "foreach ks body s = Inr (s + (\<Sum>i\<leftarrow>ks. g i))"
  using assms by (induction ks arbitrary: s) (simp_all add: add.assoc)

lemma unit_range_mem: "i \<in> set (unit_range lo (int hi)) \<longleftrightarrow> lo \<le> i \<and> i \<le> hi"
  by (auto simp: unit_range_def)

lemma unit_range_full: "unit_range 1 (int n) = map Suc [0..<n]"
proof -
  have "nat (int n + 1) = Suc n"
    by simp
  then show ?thesis
    by (simp only: unit_range_def map_Suc_upt One_nat_def)
qed

lemma kinetic_closed:
  assumes wf: "well_formed bodies"
  shows "kinetic bodies = Inr (spec_kinetic bodies)"
proof -
  let ?g = "\<lambda>i. 0.5 * m (bodies ! (i - 1)) * (\<Sum>c<NDIM. (v (bodies ! (i - 1)) ! c)\<^sup>2)"
  have step: "bind_res (foreach (unit_range 1 (int NDIM))
                          (\<lambda>d vi2. bind_res (getindex bodies i) (\<lambda>bi.
                                    bind_res (getindex (v bi) d) (\<lambda>vd. Inr (vi2 + vd ^ 2)))) 0) (\<lambda>vi2.
                bind_res (getindex bodies i) (\<lambda>bi. Inr (K + 0.5 * m bi * vi2))) = Inr (K + ?g i)"
    if "i \<in> set (unit_range 1 (int (length bodies)))" for i K
  proof -
    have i: "1 \<le> i" "i \<le> length bodies"
      using that by (simp_all add: unit_range_mem)
    then have "length (v (bodies ! (i - 1))) = 2"
      using wf by (simp add: well_formed_nth)
    then show ?thesis
      using i by (simp add: unit_range_NDIM getindex_def sum_NDIM)
  qed
  have "kinetic bodies = Inr (0 + (\<Sum>i\<leftarrow>unit_range 1 (int (length bodies)). ?g i))"
    unfolding kinetic_def by (rule foreach_sum) (rule step)
  also have "(\<Sum>i\<leftarrow>unit_range 1 (int (length bodies)). ?g i) = spec_kinetic bodies"
    unfolding unit_range_full spec_kinetic_def
    by (simp add: comp_def interv_sum_list_conv_sum_set_nat atLeast0LessThan del: upt_Suc)
  finally show ?thesis by simp
qed

lemma potential_closed:
  assumes wf: "well_formed bodies"
  shows "potential bodies = Inr (spec_potential bodies)"
proof -
  let ?N = "length bodies"
  let ?h = "\<lambda>p q. - (G * m (bodies ! p) * m (bodies ! q) / sqrt (soft bodies p q))"
  have pair: "bind_res (getindex bodies j) (\<lambda>bj.
                let xj = x bj; mj = m bj in
                bind_res (foreach (unit_range 1 (int NDIM))
                           (\<lambda>d r2. bind_res (getindex xj d) (\<lambda>xjd.
                                    bind_res (getindex (x (bodies ! (i - 1))) d) (\<lambda>xid.
                                    Inr (r2 + (xjd - xid) ^ 2)))) 0) (\<lambda>r2.
                bind_res (sqrt_f (r2 + SOFTENING\<^sup>2)) (\<lambda>s.
                bind_res (div_f (G * m (bodies ! (i - 1)) * mj) s) (\<lambda>q.
                Inr (U - q))))) = Inr (U + ?h (i - 1) (j - 1))"
    if "1 \<le> i" "i < j" "j \<le> ?N" for i j U
  proof -
    have "length (x (bodies ! (i - 1))) = 2" "length (x (bodies ! (j - 1))) = 2"
      using wf that by (simp_all add: well_formed_nth)
    moreover have "sqrt (soft bodies (i - 1) (j - 1)) \<noteq> 0" "\<not> soft bodies (i - 1) (j - 1) < 0"
      using soft_pos [of bodies "i - 1" "j - 1"] by simp_all
    ultimately show ?thesis
      using that
      by (simp add: unit_range_NDIM getindex_def div_f_def sqrt_f_def soft_def sum_NDIM Let_def)
  qed
  have inner: "bind_res (getindex bodies i) (\<lambda>bi.
                let xi = x bi; mi = m bi in
                foreach (unit_range (i + 1) (int ?N))
                  (\<lambda>j U. bind_res (getindex bodies j) (\<lambda>bj.
                          let xj = x bj; mj = m bj in
                          bind_res (foreach (unit_range 1 (int NDIM))
                                     (\<lambda>d r2. bind_res (getindex xj d) (\<lambda>xjd.
                                              bind_res (getindex xi d) (\<lambda>xid.
                                              Inr (r2 + (xjd - xid) ^ 2)))) 0) (\<lambda>r2.
                          bind_res (sqrt_f (r2 + SOFTENING\<^sup>2)) (\<lambda>s.
                          bind_res (div_f (G * mi * mj) s) (\<lambda>q.
                          Inr (U - q)))))) U) =
               Inr (U + (\<Sum>j\<leftarrow>unit_range (i + 1) (int ?N). ?h (i - 1) (j - 1)))"
    if "i \<in> set (unit_range 1 (int ?N - 1))" for i U
  proof -
    have i: "1 \<le> i" "i < ?N"
      using that by (auto simp: unit_range_def)
    have g: "getindex bodies i = Inr (bodies ! (i - 1))"
      using i by (simp add: getindex_ok)
    show ?thesis
      unfolding g bind_res_Inr Let_def
      by (rule foreach_sum) (use i pair in \<open>simp add: unit_range_mem Let_def\<close>)
  qed
  have run: "potential bodies =
             Inr (0 + (\<Sum>i\<leftarrow>unit_range 1 (int ?N - 1). \<Sum>j\<leftarrow>unit_range (i + 1) (int ?N). ?h (i - 1) (j - 1)))"
    unfolding potential_def Let_def by (rule foreach_sum) (rule inner [unfolded Let_def])
  show ?thesis
  proof (cases ?N)
    case 0
    then show ?thesis
      by (simp add: potential_def spec_potential_def unit_range_def)
  next
    case (Suc n)
    have "(\<Sum>i\<leftarrow>unit_range 1 (int ?N - 1). \<Sum>j\<leftarrow>unit_range (i + 1) (int ?N). ?h (i - 1) (j - 1)) =
          (\<Sum>p = 0..<n. \<Sum>q = Suc p..<Suc n. ?h p q)"
      unfolding Suc by (rule list_sum_pairs)
    also have "\<dots> = (\<Sum>p<Suc n. \<Sum>q = Suc p..<Suc n. ?h p q)"
      by (simp add: atLeast0LessThan)
    also have "\<dots> = spec_potential bodies"
      by (simp add: spec_potential_def Suc soft_def sum_negf)
    finally show ?thesis
      using run by simp
  qed
qed

lemma total_energy_closed:
  assumes "well_formed bodies"
  shows "total_energy bodies = Inr (spec_kinetic bodies + spec_potential bodies)"
  by (simp add: total_energy_def kinetic_closed [OF assms] potential_closed [OF assms])

lemma foreach_rows_upto:
  assumes step: "\<And>i s. 1 \<le> i \<Longrightarrow> i \<le> n \<Longrightarrow> length s = n \<Longrightarrow> Q (s ! (i - 1)) \<Longrightarrow>
                   body i s = Inr (s[i - 1 := f (i - 1) (s ! (i - 1))])"
    and len: "length s = n" and Q: "\<forall>k<n. Q (s ! k)" and j: "j \<le> n"
  shows "foreach [1..<Suc j] body s = Inr (map (\<lambda>k. if k < j then f k (s ! k) else s ! k) [0..<n])"
  using j
proof (induction j)
  case 0
  show ?case using len by (auto intro!: nth_equalityI)
next
  case (Suc j)
  let ?s1 = "map (\<lambda>k. if k < j then f k (s ! k) else s ! k) [0..<n]"
  have IH: "foreach [1..<Suc j] body s = Inr ?s1"
    using Suc by simp
  have sp: "[1..<Suc (Suc j)] = [1..<Suc j] @ [Suc j]"
    by simp
  have "Q (?s1 ! (Suc j - 1))"
    using Suc.prems Q by simp
  then have st: "body (Suc j) ?s1 = Inr (?s1[j := f j (?s1 ! j)])"
    using step [of "Suc j" ?s1] Suc.prems by simp
  have "?s1[j := f j (?s1 ! j)] = map (\<lambda>k. if k < Suc j then f k (s ! k) else s ! k) [0..<n]"
    using Suc.prems by (intro nth_equalityI) (simp_all add: nth_list_update less_Suc_eq)
  then show ?case
    by (simp only: sp foreach_append IH bind_res_Inr foreach.simps st)
qed

lemma foreach_rows:
  assumes step: "\<And>i s. 1 \<le> i \<Longrightarrow> i \<le> n \<Longrightarrow> length s = n \<Longrightarrow> Q (s ! (i - 1)) \<Longrightarrow>
                   body i s = Inr (s[i - 1 := f (i - 1) (s ! (i - 1))])"
    and len: "length s = n" and Q: "\<forall>k<n. Q (s ! k)"
  shows "foreach (unit_range 1 (int n)) body s = Inr (map (\<lambda>k. f k (s ! k)) [0..<n])"
proof -
  have ur: "unit_range 1 (int n) = [1..<Suc n]"
    by (simp add: unit_range_def nat_add_distrib)
  have mp: "map (\<lambda>k. if k < n then f k (s ! k) else s ! k) [0..<n] = map (\<lambda>k. f k (s ! k)) [0..<n]"
    by simp
  have "foreach [1..<Suc n] body s = Inr (map (\<lambda>k. if k < n then f k (s ! k) else s ! k) [0..<n])"
    by (rule foreach_rows_upto [OF step len Q order_refl])
  then show ?thesis
    by (simp only: ur mp)
qed


lemma foreach_NDIM: "foreach (unit_range 1 (int NDIM)) body s = bind_res (body 1 s) (body 2)"
proof -
  have "unit_range 1 (int NDIM) = [1, 2]"
    using unit_range_NDIM by simp
  then show ?thesis
    by (simp add: bind_res_def split: sum.splits)
qed

lemma drift_row:
  assumes k: "k < length s" "k < length a" and sh: "length (a ! k) = 2"
    and b: "length (x (s ! k)) = 2" "length (v (s ! k)) = 2"
  shows "foreach (unit_range 1 (int NDIM)) (drift_kick a dt (Suc k)) s =
         Inr (s[k := drift dt (a ! k) (s ! k)])"
proof -
  obtain p0 p1 where p: "x (s ! k) = [p0, p1]"
    using b len2 by blast
  obtain w0 w1 where w: "v (s ! k) = [w0, w1]"
    using b len2 by blast
  obtain a0 a1 where a: "a ! k = [a0, a1]"
    using sh len2 by blast
  show ?thesis
    unfolding foreach_NDIM
    using k
    by (simp add: drift_kick_def add_x_def add_v_def getindex_def setindex_def
        p w a drift_def NDIM_def upt_rec numeral_2_eq_2)
qed

lemma kick_row:
  assumes k: "k < length s" "k < length a" and sh: "length (a ! k) = 2"
    and b: "length (v (s ! k)) = 2"
  shows "foreach (unit_range 1 (int NDIM)) (kick a dt (Suc k)) s =
         Inr (s[k := half_kick dt (a ! k) (s ! k)])"
proof -
  obtain w0 w1 where w: "v (s ! k) = [w0, w1]"
    using b len2 by blast
  obtain a0 a1 where a: "a ! k = [a0, a1]"
    using sh len2 by blast
  show ?thesis
    unfolding foreach_NDIM
    using k
    by (simp add: kick_def add_v_def getindex_def setindex_def
        w a half_kick_def NDIM_def upt_rec numeral_2_eq_2)
qed

lemma well_formed_iff: "well_formed bodies \<longleftrightarrow> (\<forall>k<length bodies. length (x (bodies ! k)) = 2 \<and> length (v (bodies ! k)) = 2)"
  by (auto simp: well_formed_def NDIM_def all_set_conv_all_nth)

lemma shaped_iff: "shaped a N \<longleftrightarrow> length a = N \<and> (\<forall>k<N. length (a ! k) = 2)"
  by (auto simp: shaped_def NDIM_def all_set_conv_all_nth)

lemma shaped_kernel: "shaped (kernel bodies) (length bodies)"
  by (simp add: shaped_iff kernel_def NDIM_def)

lemma length_drift_all [simp]: "length (drift_all dt a bodies) = length bodies"
  by (simp add: drift_all_def)

lemma length_kick_all [simp]: "length (kick_all dt a bodies) = length bodies"
  by (simp add: kick_all_def)

lemma well_formed_drift_all: "well_formed (drift_all dt a bodies)"
  by (simp add: well_formed_iff drift_all_def drift_def NDIM_def)

lemma well_formed_kick_all: "well_formed bodies \<Longrightarrow> well_formed (kick_all dt a bodies)"
  by (simp add: well_formed_iff kick_all_def half_kick_def NDIM_def)

lemma kernel_cong:
  assumes "length bs = length bs'"
    and "\<And>k. k < length bs \<Longrightarrow> m (bs ! k) = m (bs' ! k) \<and> x (bs ! k) = x (bs' ! k)"
  shows "kernel bs = kernel bs'"
proof -
  have "m (bs ! q) * pull bs k q c = m (bs' ! q) * pull bs' k q c"
    if "k < length bs" "q < length bs" for k q c
    using assms(2) [OF that(1)] assms(2) [OF that(2)] by (simp add: pull_def soft_def)
  then have "(\<Sum>q \<in> {..<length bs} - {k}. m (bs ! q) * pull bs k q c) =
             (\<Sum>q \<in> {..<length bs} - {k}. m (bs' ! q) * pull bs' k q c)" if "k < length bs" for k c
    using that by (intro sum.cong) auto
  then show ?thesis
    using assms(1) by (simp add: kernel_def)
qed

lemma kernel_kick_all: "kernel (kick_all dt a bodies) = kernel bodies"
  by (rule kernel_cong) (simp_all add: kick_all_def half_kick_def)

lemma drift_loop:
  assumes wf: "well_formed bodies" and sh: "shaped a (length bodies)"
  shows "foreach (unit_range 1 (int (length bodies)))
           (\<lambda>i. foreach (unit_range 1 (int NDIM)) (drift_kick a dt i)) bodies =
         Inr (drift_all dt a bodies)"
  unfolding drift_all_def
proof (rule foreach_rows [where Q = "\<lambda>b. length (x b) = 2 \<and> length (v b) = 2"])
  fix i and s :: "Body list"
  assume i: "1 \<le> i" "i \<le> length bodies" and len: "length s = length bodies"
    and Q: "length (x (s ! (i - 1))) = 2 \<and> length (v (s ! (i - 1))) = 2"
  have "foreach (unit_range 1 (int NDIM)) (drift_kick a dt (Suc (i - 1))) s =
        Inr (s[i - 1 := drift dt (a ! (i - 1)) (s ! (i - 1))])"
    using i len Q sh by (intro drift_row) (simp_all add: shaped_iff)
  then show "foreach (unit_range 1 (int NDIM)) (drift_kick a dt i) s =
        Inr (s[i - 1 := drift dt (a ! (i - 1)) (s ! (i - 1))])"
    using i by simp
next
  show "\<forall>k<length bodies. length (x (bodies ! k)) = 2 \<and> length (v (bodies ! k)) = 2"
    using wf by (simp add: well_formed_iff)
qed simp

lemma kick_loop:
  assumes wf: "well_formed bodies" and sh: "shaped a (length bodies)"
  shows "foreach (unit_range 1 (int (length bodies)))
           (\<lambda>i. foreach (unit_range 1 (int NDIM)) (kick a dt i)) bodies =
         Inr (kick_all dt a bodies)"
  unfolding kick_all_def
proof (rule foreach_rows [where Q = "\<lambda>b. length (v b) = 2"])
  fix i and s :: "Body list"
  assume i: "1 \<le> i" "i \<le> length bodies" and len: "length s = length bodies"
    and Q: "length (v (s ! (i - 1))) = 2"
  have "foreach (unit_range 1 (int NDIM)) (kick a dt (Suc (i - 1))) s =
        Inr (s[i - 1 := half_kick dt (a ! (i - 1)) (s ! (i - 1))])"
    using i len Q sh by (intro kick_row) (simp_all add: shaped_iff)
  then show "foreach (unit_range 1 (int NDIM)) (kick a dt i) s =
        Inr (s[i - 1 := half_kick dt (a ! (i - 1)) (s ! (i - 1))])"
    using i by simp
next
  show "\<forall>k<length bodies. length (v (bodies ! k)) = 2"
    using wf by (simp add: well_formed_iff)
qed simp

lemma vv_step_closed:
  assumes wf: "well_formed bodies" and sh: "shaped a (length bodies)"
  shows "vv_step bodies a dt =
         Inr (kick_all dt (kernel (drift_all dt a bodies)) (drift_all dt a bodies),
              kernel (drift_all dt a bodies))"
proof -
  let ?b1 = "drift_all dt a bodies"
  have 1: "foreach (unit_range 1 (int (length bodies)))
           (\<lambda>i. foreach (unit_range 1 (int NDIM)) (drift_kick a dt i)) bodies = Inr ?b1"
    by (rule drift_loop [OF wf sh])
  have 2: "accelerations a ?b1 = Inr (kernel ?b1)"
    using sh by (intro accelerations_closed well_formed_drift_all) simp
  have 3: "foreach (unit_range 1 (int (length bodies)))
           (\<lambda>i. foreach (unit_range 1 (int NDIM)) (kick (kernel ?b1) dt i)) ?b1 =
           Inr (kick_all dt (kernel ?b1) ?b1)"
    using kick_loop [of ?b1 "kernel ?b1" dt] well_formed_drift_all [of dt a bodies] shaped_kernel [of ?b1]
    by simp
  show ?thesis
    by (simp only: vv_step_def Let_def 1 2 3 bind_res_Inr)
qed

lemma kernel_nth:
  "k < length bodies \<Longrightarrow> c < 2 \<Longrightarrow>
   kernel bodies ! k ! c = (\<Sum>q \<in> {..<length bodies} - {k}. m (bodies ! q) * pull bodies k q c)"
  by (simp add: kernel_def NDIM_def)

lemma kernel_net_zero:
  "(\<Sum>k<length bodies. m (bodies ! k) * (\<Sum>q \<in> {..<length bodies} - {k}. m (bodies ! q) * pull bodies k q c)) = 0"
proof -
  let ?N = "length bodies"
  let ?F = "\<lambda>k q. if q = k then 0 else m (bodies ! k) * (m (bodies ! q) * pull bodies k q c)"
  have anti: "?F q k = - ?F k q" for k q
    using pull_antisym [of bodies q k c] by simp
  have row: "m (bodies ! k) * (\<Sum>q \<in> {..<?N} - {k}. m (bodies ! q) * pull bodies k q c) = (\<Sum>q<?N. ?F k q)" for k
  proof -
    have "(\<Sum>q<?N. ?F k q) = (\<Sum>q \<in> {..<?N} - {k}. ?F k q)"
      by (rule sum.mono_neutral_right) auto
    also have "\<dots> = (\<Sum>q \<in> {..<?N} - {k}. m (bodies ! k) * (m (bodies ! q) * pull bodies k q c))"
      by (rule sum.cong) auto
    finally show ?thesis
      by (simp add: sum_distrib_left)
  qed
  let ?S = "\<Sum>k<?N. \<Sum>q<?N. ?F k q"
  have "?S = (\<Sum>q<?N. \<Sum>k<?N. ?F k q)"
    by (rule sum.swap)
  also have "\<dots> = (\<Sum>q<?N. \<Sum>k<?N. - ?F q k)"
    using anti by (intro sum.cong refl) metis
  also have "\<dots> = - ?S"
    by (simp only: sum_negf)
  finally have "?S = 0"
    by simp
  then show ?thesis
    by (simp only: row)
qed

lemma kernel_momentum:
  assumes "c < 2"
  shows "(\<Sum>k<length bodies. m (bodies ! k) * kernel bodies ! k ! c) = 0"
proof -
  have "(\<Sum>k<length bodies. m (bodies ! k) * kernel bodies ! k ! c) =
        (\<Sum>k<length bodies. m (bodies ! k) * (\<Sum>q \<in> {..<length bodies} - {k}. m (bodies ! q) * pull bodies k q c))"
    using assms by (intro sum.cong refl) (simp add: kernel_nth)
  then show ?thesis
    by (simp only: kernel_net_zero)
qed

lemma drift_all_nth:
  assumes "k < length bodies"
  shows "m (drift_all dt a bodies ! k) = m (bodies ! k)"
    and "x (drift_all dt a bodies ! k) =
           map (\<lambda>c. x (bodies ! k) ! c + (v (bodies ! k) ! c * dt + 0.5 * a ! k ! c * dt * dt)) [0..<NDIM]"
    and "v (drift_all dt a bodies ! k) = map (\<lambda>c. v (bodies ! k) ! c + 0.5 * a ! k ! c * dt) [0..<NDIM]"
  using assms by (simp_all add: drift_all_def drift_def)

lemma kick_all_nth:
  assumes "k < length bodies"
  shows "m (kick_all dt a bodies ! k) = m (bodies ! k)"
    and "x (kick_all dt a bodies ! k) = x (bodies ! k)"
    and "v (kick_all dt a bodies ! k) = map (\<lambda>c. v (bodies ! k) ! c + 0.5 * a ! k ! c * dt) [0..<NDIM]"
  using assms by (simp_all add: kick_all_def half_kick_def)

lemma vv_step_components:
  assumes wf: "well_formed bodies" and sh: "shaped a (length bodies)"
  shows "\<exists>bodies' a'. vv_step bodies a dt = Inr (bodies', a') \<and>
      well_formed bodies' \<and> length bodies' = length bodies \<and> shaped a' (length bodies) \<and>
      a' = kernel bodies' \<and>
      (\<forall>i<length bodies. m (bodies' ! i) = m (bodies ! i) \<and>
         (\<forall>c<NDIM.
            x (bodies' ! i) ! c = x (bodies ! i) ! c + v (bodies ! i) ! c * dt + 0.5 * a ! i ! c * dt\<^sup>2 \<and>
            v (bodies' ! i) ! c = v (bodies ! i) ! c + 0.5 * a ! i ! c * dt + 0.5 * a' ! i ! c * dt))"
proof -
  let ?b1 = "drift_all dt a bodies"
  let ?a1 = "kernel ?b1"
  let ?b2 = "kick_all dt ?a1 ?b1"
  have run: "vv_step bodies a dt = Inr (?b2, ?a1)"
    by (rule vv_step_closed [OF wf sh])
  have wf2: "well_formed ?b2"
    by (intro well_formed_kick_all well_formed_drift_all)
  have sh1: "shaped ?a1 (length bodies)"
    using shaped_kernel [of ?b1] by simp
  have ker: "?a1 = kernel ?b2"
    by (simp only: kernel_kick_all)
  have comp: "m (?b2 ! i) = m (bodies ! i) \<and>
         (\<forall>c<NDIM.
            x (?b2 ! i) ! c = x (bodies ! i) ! c + v (bodies ! i) ! c * dt + 0.5 * a ! i ! c * dt\<^sup>2 \<and>
            v (?b2 ! i) ! c = v (bodies ! i) ! c + 0.5 * a ! i ! c * dt + 0.5 * ?a1 ! i ! c * dt)"
    if "i < length bodies" for i
    using that by (simp add: kick_all_nth drift_all_nth power2_eq_square algebra_simps)
  show ?thesis
    using run wf2 sh1 ker comp by (intro exI [of _ ?b2] exI [of _ ?a1]) simp
qed

lemma vv_step_momentum:
  assumes c: "c < 2"
  shows "momentum (kick_all dt (kernel (drift_all dt (kernel bodies) bodies)) (drift_all dt (kernel bodies) bodies)) c =
         momentum bodies c"
proof -
  let ?N = "length bodies"
  let ?a = "kernel bodies"
  let ?b1 = "drift_all dt ?a bodies"
  let ?a1 = "kernel ?b1"
  have z0: "(\<Sum>i<?N. m (bodies ! i) * ?a ! i ! c) = 0"
    by (rule kernel_momentum [OF c])
  have "(\<Sum>i<length ?b1. m (?b1 ! i) * ?a1 ! i ! c) = 0"
    by (rule kernel_momentum [OF c])
  then have z1: "(\<Sum>i<?N. m (bodies ! i) * ?a1 ! i ! c) = 0"
    by (simp add: drift_all_nth)
  have "momentum (kick_all dt ?a1 ?b1) c =
        (\<Sum>i<?N. m (bodies ! i) * v (bodies ! i) ! c + (0.5 * dt) * (m (bodies ! i) * ?a ! i ! c) +
                  (0.5 * dt) * (m (bodies ! i) * ?a1 ! i ! c))"
    unfolding momentum_def
    using c by (intro sum.cong) (simp_all add: kick_all_nth drift_all_nth NDIM_def algebra_simps)
  also have "\<dots> = momentum bodies c + (0.5 * dt) * (\<Sum>i<?N. m (bodies ! i) * ?a ! i ! c) +
                  (0.5 * dt) * (\<Sum>i<?N. m (bodies ! i) * ?a1 ! i ! c)"
    by (simp only: sum.distrib sum_distrib_left momentum_def)
  finally show ?thesis
    by (simp only: z0 z1 mult_zero_right add_0_right)
qed

lemma advance_invariant:
  assumes wf: "well_formed bodies"
  shows "\<exists>bodies'. advance n dt (bodies, kernel bodies) = Inr (bodies', kernel bodies') \<and>
           well_formed bodies' \<and> length bodies' = length bodies \<and>
           (\<forall>c<2. momentum bodies' c = momentum bodies c)"
proof (induction n)
  case 0
  show ?case using wf by simp
next
  case (Suc n)
  then obtain b where b: "advance n dt (bodies, kernel bodies) = Inr (b, kernel b)"
      "well_formed b" "length b = length bodies" "\<forall>c<2. momentum b c = momentum bodies c"
    by blast
  let ?b1 = "drift_all dt (kernel b) b"
  let ?b2 = "kick_all dt (kernel ?b1) ?b1"
  have "vv_step b (kernel b) dt = Inr (?b2, kernel ?b1)"
    by (rule vv_step_closed [OF b(2) shaped_kernel])
  then have "advance (Suc n) dt (bodies, kernel bodies) = Inr (?b2, kernel ?b2)"
    by (simp add: b(1) kernel_kick_all)
  moreover have "well_formed ?b2"
    by (intro well_formed_kick_all well_formed_drift_all)
  moreover have "length ?b2 = length bodies"
    by (simp add: b(3))
  moreover have "\<forall>c<2. momentum ?b2 c = momentum bodies c"
    using b(4) by (simp add: vv_step_momentum)
  ultimately show ?case
    by blast
qed

lemma well_formed_demo: "well_formed two_body_demo"
  by (simp add: well_formed_def two_body_demo_def NDIM_def Let_def)

lemma length_demo: "length two_body_demo = 2"
  by (simp add: two_body_demo_def Let_def)

lemma momentum_demo: "momentum two_body_demo 0 = 0 \<and> momentum two_body_demo 1 = 0"
proof -
  have bal: "m1 * (- m2 / (m1 + m2) * s) + m2 * (m1 / (m1 + m2) * s) = 0" for m1 m2 s :: real
    by (simp add: field_simps)
  have two: "(\<Sum>i<2. f i) = f 0 + f (1::nat)" for f :: "nat \<Rightarrow> real"
    by (simp add: lessThan_Suc numeral_2_eq_2)
  show ?thesis
    unfolding momentum_def length_demo two
    by (simp add: two_body_demo_def Let_def bal)
qed

lemma kernel_small:
  assumes "length bodies < 2"
  shows "kernel bodies = replicate (length bodies) (replicate NDIM 0)"
proof -
  have "(\<Sum>q \<in> {..<length bodies} - {k}. f q) = (0::real)" if "k < length bodies" for k f
  proof -
    have "{..<length bodies} - {k} = {}"
      using assms that by auto
    then show ?thesis
      by (simp only: sum.empty)
  qed
  then show ?thesis
    by (intro nth_equalityI) (simp_all add: kernel_def)
qed

lemma spec_potential_small:
  assumes "length bodies < 2"
  shows "spec_potential bodies = 0"
proof -
  have "(\<Sum>j = Suc i..<length bodies. f j) = (0::real)" for i f
  proof -
    have "{Suc i..<length bodies} = {}"
      using assms by auto
    then show ?thesis
      by (simp only: sum.empty)
  qed
  then show ?thesis
    by (simp add: spec_potential_def)
qed


lemma single_body_step:
  assumes "well_formed [b]"
  shows "vv_step [b] [replicate NDIM 0] dt =
         Inr ([b\<lparr>x := map (\<lambda>c. x b ! c + v b ! c * dt) [0..<NDIM]\<rparr>], [replicate NDIM 0])"
proof -
  let ?z = "[replicate NDIM (0::real)]"
  have len: "length (x b) = 2" "length (v b) = 2"
    using assms by (simp_all add: well_formed_def NDIM_def)
  obtain w0 w1 where w: "v b = [w0, w1]"
    using len(2) len2 by blast
  have sh: "shaped ?z (length [b])"
    by (simp add: shaped_def)
  have d: "drift_all dt ?z [b] = [b\<lparr>x := map (\<lambda>c. x b ! c + v b ! c * dt) [0..<NDIM]\<rparr>]"
    by (simp add: drift_all_def drift_def w NDIM_def upt_rec numeral_2_eq_2)
  have k: "kernel (drift_all dt ?z [b]) = ?z"
    using kernel_small [of "drift_all dt ?z [b]"] by simp
  have kk: "kick_all dt ?z (drift_all dt ?z [b]) = drift_all dt ?z [b]"
    unfolding d by (simp add: kick_all_def half_kick_def w NDIM_def upt_rec numeral_2_eq_2)
  have "vv_step [b] ?z dt = Inr (kick_all dt ?z (drift_all dt ?z [b]), ?z)"
    using vv_step_closed [OF assms sh, of dt] by (simp only: k)
  then have "vv_step [b] ?z dt = Inr (drift_all dt ?z [b], ?z)"
    by (simp only: kk)
  then show ?thesis
    by (simp only: d)
qed

lemma state_after_wf:
  "well_formed bodies \<Longrightarrow> well_formed (state_after n dt bodies) \<and> length (state_after n dt bodies) = length bodies"
  by (induction n) (simp_all add: Let_def well_formed_kick_all well_formed_drift_all)

lemma advance_state_after:
  assumes "well_formed bodies"
  shows "advance n dt (bodies, kernel bodies) =
         Inr (state_after n dt bodies, kernel (state_after n dt bodies))"
proof (induction n)
  case 0
  show ?case by simp
next
  case (Suc n)
  have "vv_step (state_after n dt bodies) (kernel (state_after n dt bodies)) dt =
        Inr (state_after (Suc n) dt bodies, kernel (state_after (Suc n) dt bodies))"
    using vv_step_closed [OF conjunct1 [OF state_after_wf [OF assms]] shaped_kernel, of n dt dt]
    by (simp add: Let_def kernel_kick_all)
  then show ?case
    by (simp add: Suc)
qed

lemma inner_flat_ok:
  assumes "well_formed bodies"
  shows "inner_flat bodies = Inr (map (\<lambda>b. Vec (x b)) bodies)"
  using assms
proof (induction bodies)
  case Nil
  show ?case by simp
next
  case (Cons b bs)
  then have "length (x b) = 2" and wf: "well_formed bs"
    by (simp_all add: well_formed_def NDIM_def)
  then obtain p q where "x b = [p, q]"
    using len2 by blast
  then have "reduce_vcat (map Scalar (x b)) = Inr (Vec (x b))"
    by (simp add: reduce_vcat_def)
  then show ?case
    using Cons.IH [OF wf] by simp
qed

lemma positions_ok:
  assumes "well_formed bodies" and "bodies \<noteq> []"
  shows "positions bodies = Inr (Vec (concat (map x bodies)))"
proof -
  have "reduce_vcat (map (\<lambda>b. Vec (x b)) bodies) = Inr (Vec (concat (map x bodies)))"
  proof (cases bodies)
    case Nil
    then show ?thesis using assms(2) by simp
  next
    case (Cons b bs)
    then show ?thesis
      by (cases bs) (simp_all add: reduce_vcat_def comp_def)
  qed
  then show ?thesis
    by (simp add: positions_def inner_flat_ok [OF assms(1)])
qed

lemma record_sample_ok:
  assumes "well_formed bodies" and "bodies \<noteq> []"
  shows "record_sample bodies t tr =
         Inr \<lparr>times = times tr @ [t],
              energies = energies tr @ [spec_kinetic bodies + spec_potential bodies],
              samples = samples tr @ [concat (map x bodies)]\<rparr>"
  by (simp add: record_sample_def total_energy_closed [OF assms(1)] positions_ok [OF assms] push_sample_def)

lemma recorded_Suc:
  "recorded oe (Suc n) = recorded oe n @ (if int (Suc n) smod oe = 0 then [Suc n] else [])"
  by (simp add: recorded_def)

lemma trajectory_of_snoc:
  "\<lparr>times = times (trajectory_of dt bodies ks) @ [real k * dt],
    energies = energies (trajectory_of dt bodies ks) @
      [spec_kinetic (state_after k dt bodies) + spec_potential (state_after k dt bodies)],
    samples = samples (trajectory_of dt bodies ks) @ [concat (map x (state_after k dt bodies))]\<rparr> =
   trajectory_of dt bodies (ks @ [k])"
  by (simp add: trajectory_of_def)

lemma sim_step_ok:
  assumes wf: "well_formed bodies" and ne: "bodies \<noteq> []" and oe: "oe \<noteq> 0"
  shows "sim_step dt oe (int (Suc n))
           (state_after n dt bodies, kernel (state_after n dt bodies), real n * dt,
            trajectory_of dt bodies (recorded oe n)) =
         Inr (state_after (Suc n) dt bodies, kernel (state_after (Suc n) dt bodies), real (Suc n) * dt,
              trajectory_of dt bodies (recorded oe (Suc n)))"
proof -
  let ?b = "state_after n dt bodies" and ?b' = "state_after (Suc n) dt bodies"
  have wfb: "well_formed ?b" "well_formed ?b'" "?b' \<noteq> []"
    using state_after_wf [OF wf, of n dt] state_after_wf [OF wf, of "Suc n" dt] ne by auto
  have step: "vv_step ?b (kernel ?b) dt = Inr (?b', kernel ?b')"
    using vv_step_closed [OF wfb(1) shaped_kernel, of dt] by (simp add: Let_def kernel_kick_all)
  have t: "real n * dt + dt = real (Suc n) * dt"
    by (simp add: algebra_simps)
  have rec: "record_sample ?b' (real (Suc n) * dt) (trajectory_of dt bodies (recorded oe n)) =
             Inr (trajectory_of dt bodies (recorded oe n @ [Suc n]))"
    by (simp only: record_sample_ok [OF wfb(2,3)] trajectory_of_snoc)
  show ?thesis
    using oe
    by (simp only: sim_step_def prod.case step bind_res_Inr Let_def t rem_i_def if_False rec recorded_Suc
          split: if_splits)
       (simp add: rec)
qed

lemma sim_loop:
  assumes wf: "well_formed bodies" and ne: "bodies \<noteq> []" and oe: "oe \<noteq> 0"
  shows "foreach [1..int n] (sim_step dt oe) (bodies, kernel bodies, 0, trajectory_of dt bodies [0]) =
         Inr (state_after n dt bodies, kernel (state_after n dt bodies), real n * dt,
              trajectory_of dt bodies (recorded oe n))"
proof (induction n)
  case 0
  show ?case by (simp add: recorded_def)
next
  case (Suc n)
  have "[1..int (Suc n)] = [1..int (Suc n) - 1] @ [int (Suc n)]"
    by (rule upto_rec2) simp
  then have sp: "[1..int (Suc n)] = [1..int n] @ [int (Suc n)]"
    by simp
  show ?case
    by (simp only: sp foreach_append Suc bind_res_Inr foreach.simps sim_step_ok [OF wf ne oe])
qed

lemma simulate_start:
  assumes wf: "well_formed bodies" and ne: "bodies \<noteq> []"
  shows "simulate bodies dt nsteps oe =
         bind_res (foreach [1..nsteps] (sim_step dt oe) (bodies, kernel bodies, 0, trajectory_of dt bodies [0]))
           (\<lambda>(bodies, a, t, tr). Inr (tr, bodies))"
proof -
  have acc: "accelerations (replicate (length bodies) (replicate NDIM 0)) bodies = Inr (kernel bodies)"
    by (rule accelerations_closed [OF wf shaped_zero])
  have rec: "record_sample bodies 0 \<lparr>times = [], energies = [], samples = []\<rparr> = Inr (trajectory_of dt bodies [0])"
    by (simp add: record_sample_ok [OF wf ne] trajectory_of_def)
  show ?thesis
    by (simp only: simulate_def Let_def acc rec bind_res_Inr)
qed

lemma simulate_closed:
  assumes wf: "well_formed bodies" and ne: "bodies \<noteq> []" and oe: "oe \<noteq> 0"
  shows "simulate bodies dt nsteps oe =
         Inr (trajectory_of dt bodies (recorded oe (nat nsteps)), state_after (nat nsteps) dt bodies)"
proof -
  have "[1..nsteps] = [1..int (nat nsteps)]"
    by (cases "0 \<le> nsteps") simp_all
  then show ?thesis
    by (simp only: simulate_start [OF wf ne] sim_loop [OF wf ne oe] bind_res_Inr prod.case)
qed

lemma multiples_upto:
  assumes "0 < d"
  shows "filter (\<lambda>k. d dvd k) [1..<Suc n] = map (\<lambda>q. q * d) [1..<Suc (n div d)]"
proof (induction n)
  case 0
  show ?case using assms by simp
next
  case (Suc n)
  show ?case
  proof (cases "d dvd Suc n")
    case True
    then have a: "Suc n div d = Suc (n div d)"
      by (simp add: div_Suc mod_eq_0_iff_dvd)
    have "Suc n div d * d = Suc n"
      using True by simp
    then have "Suc (n div d) * d = Suc n"
      by (simp only: a)
    with a show ?thesis
      using True Suc by simp
  next
    case False
    then have "Suc n div d = n div d"
      by (simp add: div_Suc mod_eq_0_iff_dvd)
    then show ?thesis
      using False Suc by simp
  qed
qed

lemma recorded_multiples:
  assumes "1 \<le> oe"
  shows "recorded oe n = map (\<lambda>q. q * nat oe) [0..<Suc (n div nat oe)]"
proof -
  have "int k smod oe = 0 \<longleftrightarrow> nat oe dvd k" for k
  proof -
    have "int k smod oe = int k mod oe"
      using assms by (simp add: smod_int_alt_def sgn_if)
    also have "\<dots> = int (k mod nat oe)"
      using assms by (simp add: zmod_int)
    finally show ?thesis
      by (simp add: mod_eq_0_iff_dvd)
  qed
  then have "recorded oe n = 0 # filter (\<lambda>k. nat oe dvd k) [1..<Suc n]"
    by (simp add: recorded_def)
  also have "\<dots> = 0 # map (\<lambda>q. q * nat oe) [1..<Suc (n div nat oe)]"
    using assms by (simp only: multiples_upto [of "nat oe" n] zero_less_nat_eq)
  also have "\<dots> = map (\<lambda>q. q * nat oe) [0..<Suc (n div nat oe)]"
    by (simp add: upt_rec [of 0])
  finally show ?thesis .
qed

lemma round_even_of_int [simp]: "round_even (of_int n) = n"
  by (simp add: round_even_def)

lemma round_even_eval:
  assumes "of_int n - 1 / 2 < y" and "y < of_int n + 1 / 2"
  shows "round_even y = n"
proof (cases "of_int n \<le> y")
  case True
  then have "\<lfloor>y\<rfloor> = n"
    using assms by (simp add: floor_eq_iff)
  then show ?thesis
    using assms by (simp add: round_even_def)
next
  case False
  then have "\<lfloor>y\<rfloor> = n - 1"
    using assms by (simp add: floor_eq_iff)
  then show ?thesis
    using assms False by (simp add: round_even_def Let_def)
qed

lemma log2_floor_neg:
  assumes "1 / 2 ^ k \<le> y" and "y < 2 / 2 ^ k"
  shows "\<lfloor>log 2 y\<rfloor> = - int k"
proof -
  have a: "(2::real) powr (- real k) = 1 / 2 ^ k"
    by (simp add: powr_minus powr_realpow inverse_eq_divide)
  have "(2::real) powr (- real k + 1) = 2 powr (- real k) * 2 powr 1"
    by (rule powr_add)
  then have b: "(2::real) powr (- real k + 1) = 2 / 2 ^ k"
    by (simp only: a) simp
  have "0 < y"
    using assms(1) by (smt (verit) divide_pos_pos zero_less_power)
  moreover have "(2::real) powr real_of_int (- int k) \<le> y \<and> y < 2 powr (real_of_int (- int k) + 1)"
    using a b assms by simp
  ultimately show ?thesis
    using floor_log_eq_powr_iff [of y 2 "- int k"] by simp
qed

lemma fl_small:
  assumes lo: "1 / 2 ^ k \<le> \<bar>y\<bar>" and hi: "\<bar>y\<bar> < 2 / 2 ^ k" and k: "k \<le> 1022"
  shows "fl y = of_int (round_even (y * 2 ^ (k + 52))) / 2 ^ (k + 52)"
proof -
  have "\<lfloor>log 2 \<bar>y\<bar>\<rfloor> = - int k"
    by (rule log2_floor_neg [OF lo hi])
  then have e: "max \<lfloor>log 2 \<bar>y\<bar>\<rfloor> (- 1022) - 52 = - int (k + 52)"
    using k by simp
  have p: "pow2 (- int (k + 52)) = 1 / 2 ^ (k + 52)"
    by (simp add: pow2_def)
  have "y \<noteq> 0"
    using lo by (smt (verit) abs_zero divide_pos_pos zero_less_power)
  then show ?thesis
    by (simp only: fl_def e p Let_def if_False) simp
qed

lemma fl_int:
  assumes "\<bar>n\<bar> < 2 ^ 53"
  shows "fl (of_int n) = of_int n"
proof (cases "n = 0")
  case True
  then show ?thesis by (simp add: fl_def)
next
  case False
  define p where "p = \<lfloor>log 2 \<bar>real_of_int n\<bar>\<rfloor>"
  have "1 \<le> \<bar>n\<bar>"
    using False by simp
  then have n1: "1 \<le> \<bar>real_of_int n\<bar>"
    by (metis of_int_abs of_int_1_le_iff)
  then have "0 \<le> log 2 \<bar>real_of_int n\<bar>"
    by simp
  then have p0: "0 \<le> p"
    by (simp add: p_def)
  have "\<bar>real_of_int n\<bar> < 2 ^ 53"
    using assms by (metis of_int_abs of_int_less_numeral_power_cancel_iff)
  then have "log 2 \<bar>real_of_int n\<bar> < 53"
    using n1 by (simp add: log_less_iff powr_realpow [symmetric])
  then have p52: "p \<le> 52"
    by (simp add: p_def floor_le_iff)
  have e: "max p (- 1022) - 52 = p - 52"
    using p0 by simp
  have pw: "pow2 (p - 52) = 1 / 2 ^ nat (52 - p)"
    using p52 by (auto simp: pow2_def)
  have "real_of_int n / (1 / 2 ^ nat (52 - p)) = of_int (n * 2 ^ nat (52 - p))"
    by simp
  then have "fl (of_int n) = of_int (n * 2 ^ nat (52 - p)) * (1 / 2 ^ nat (52 - p))"
    using False by (simp only: fl_def p_def [symmetric] e pw Let_def round_even_of_int) simp
  then show ?thesis
    by simp
qed

lemma fl_eval:
  assumes "1 / 2 ^ k \<le> \<bar>y\<bar>" and "\<bar>y\<bar> < 2 / 2 ^ k" and "k \<le> 1022"
    and "of_int n - 1 / 2 < y * 2 ^ (k + 52)" and "y * 2 ^ (k + 52) < of_int n + 1 / 2"
  shows "fl y = of_int n / 2 ^ (k + 52)"
  using fl_small [OF assms(1-3)] round_even_eval [OF assms(4,5)] by simp

lemma fl_G: "fl (6.67430 / 10 ^ 11) = 5163989502626508 / 2 ^ 86"
  using fl_eval [of 34 "6.67430 / 10 ^ 11" "5163989502626508"] by simp

lemma fl_inv: "fl (1 / 1953125000) = 4951760157141521 / 2 ^ 83"
  using fl_eval [of 31 "1 / 1953125000" "4951760157141521"] by simp

lemma fl_Gm2: "fl (5163989502626508 / 2 ^ 86 * 39) = 6293612206326057 / 2 ^ 81"
  using fl_eval [of 29 "5163989502626508 / 2 ^ 86 * 39" "6293612206326057"] by simp

lemma fl_fi: "fl (6293612206326057 / 2 ^ 81 * (4951760157141521 / 2 ^ 83)) = 6919899801568466 / 2 ^ 112"
  using fl_eval [of 60 "6293612206326057 / 2 ^ 81 * (4951760157141521 / 2 ^ 83)" "6919899801568466"] by simp

lemma fl_Gm1: "fl (- (5163989502626508 / 2 ^ 86) * 1) = - (5163989502626508 / 2 ^ 86)"
  using fl_eval [of 34 "- (5163989502626508 / 2 ^ 86) * 1" "- 5163989502626508"] by simp

lemma fl_fj: "fl (- (5163989502626508 / 2 ^ 86) * (4951760157141521 / 2 ^ 83)) = - (5677866503851048 / 2 ^ 117)"
  using fl_eval [of 65 "- (5163989502626508 / 2 ^ 86) * (4951760157141521 / 2 ^ 83)" "- 5677866503851048"] by simp

lemma fl_a1: "fl (6919899801568466 / 2 ^ 112 * 750) = 5068285987476904 / 2 ^ 102"
  using fl_eval [of 50 "6919899801568466 / 2 ^ 112 * 750" "5068285987476904"] by simp

lemma fl_a2: "fl (- (5677866503851048 / 2 ^ 117) * 750) = - (8317187261500559 / 2 ^ 108)"
  using fl_eval [of 56 "- (5677866503851048 / 2 ^ 117) * 750" "- 8317187261500559"] by simp

lemma fl_a1_add: "fl (0 + 5068285987476904 / 2 ^ 102) = 5068285987476904 / 2 ^ 102"
  using fl_eval [of 50 "0 + 5068285987476904 / 2 ^ 102" "5068285987476904"] by simp

lemma fl_a2_add: "fl (0 + - (8317187261500559 / 2 ^ 108)) = - (8317187261500559 / 2 ^ 108)"
  using fl_eval [of 56 "0 + - (8317187261500559 / 2 ^ 108)" "- 8317187261500559"] by simp

lemma fl_p1: "fl (5068285987476904 / 2 ^ 102 * 1) = 5068285987476904 / 2 ^ 102"
  using fl_eval [of 50 "5068285987476904 / 2 ^ 102 * 1" "5068285987476904"] by simp

lemma fl_p2: "fl (8317187261500559 / 2 ^ 108 * 39) = 5068285987476903 / 2 ^ 102"
  using fl_eval [of 50 "8317187261500559 / 2 ^ 108 * 39" "5068285987476903"] by simp

lemma sqrt_1562500: "sqrt 1562500 = 1250"
  by (rule real_sqrt_unique) simp_all

lemma fl_numeral:
  assumes "\<bar>n\<bar> < 2 ^ 53" and "y = of_int n"
  shows "fl y = y"
  using fl_int [OF assms(1)] assms(2) by simp

lemma accelerations64_example:
  "accelerations64 [[0, 0], [0, 0]]
     [\<lparr>m = 1, x = [0, 0], v = [0, 0]\<rparr>, \<lparr>m = 39, x = [750, 0], v = [0, 0]\<rparr>] =
   Inr [[5068285987476904 / 2 ^ 102, 0], [- (8317187261500559 / 2 ^ 108), 0]]"
proof -
  define cG :: real where "cG = 5163989502626508 / 2 ^ 86"
  define cinv :: real where "cinv = 4951760157141521 / 2 ^ 83"
  define cGm2 :: real where "cGm2 = 6293612206326057 / 2 ^ 81"
  define cfi :: real where "cfi = 6919899801568466 / 2 ^ 112"
  define cfj :: real where "cfj = 5677866503851048 / 2 ^ 117"
  define ca1 :: real where "ca1 = 5068285987476904 / 2 ^ 102"
  define ca2 :: real where "ca2 = 8317187261500559 / 2 ^ 108"
  note defs = cG_def cinv_def cGm2_def cfi_def cfj_def ca1_def ca2_def
  have G: "G64 = cG"
    by (simp only: G64_def fl_G cG_def)
  have S: "SOFTENING64 = 1000"
    using fl_int [of 1000] by (simp add: SOFTENING64_def)
  have fin: "finite64 y = Inr y" if "\<bar>y\<bar> < 2" for y
  proof -
    have "(2::real) \<le> 2 ^ 1024"
      by (rule self_le_power) simp_all
    then show ?thesis
      using that by (simp add: finite64_def)
  qed
  have ints:
    "sub64 750 0 = Inr 750" "mul64 750 750 = Inr 562500" "add64 0 562500 = Inr 562500"
    "sub64 0 0 = Inr 0" "mul64 0 0 = Inr 0" "add64 562500 0 = Inr 562500"
    "mul64 1000 1000 = Inr 1000000" "add64 562500 1000000 = Inr 1562500"
    "mul64 1250 1562500 = Inr 1953125000" "add64 0 0 = Inr 0"
    using fl_int [of 750] fl_int [of 562500] fl_int [of 0] fl_int [of 1000000] fl_int [of 1562500]
      fl_int [of 1953125000]
    by (simp_all add: sub64_def mul64_def add64_def finite64_def)
  have sq: "sqrt64 1562500 = Inr 1250"
    using fl_int [of 1250] by (simp add: sqrt64_def sqrt_1562500 finite64_def)
  have iv: "inv64 1953125000 = Inr cinv"
    unfolding inv64_def cinv_def by (simp only: fl_inv) (simp add: finite64_def)
  have m1: "mul64 cG 39 = Inr cGm2"
    unfolding mul64_def cG_def cGm2_def by (simp only: fl_Gm2) (simp add: finite64_def)
  have m2: "mul64 cGm2 cinv = Inr cfi"
    unfolding mul64_def cGm2_def cinv_def cfi_def by (simp only: fl_fi) (simp add: finite64_def)
  have m3: "mul64 (- cG) 1 = Inr (- cG)"
    unfolding mul64_def cG_def by (simp only: fl_Gm1) (simp add: finite64_def)
  have m4: "mul64 (- cG) cinv = Inr (- cfj)"
    unfolding mul64_def cG_def cinv_def cfj_def by (simp only: fl_fj) (simp add: finite64_def)
  have m5: "mul64 cfi 750 = Inr ca1"
    unfolding mul64_def cfi_def ca1_def by (simp only: fl_a1) (simp add: finite64_def)
  have m6: "mul64 (- cfj) 750 = Inr (- ca2)"
    unfolding mul64_def cfj_def ca2_def by (simp only: fl_a2) (simp add: finite64_def)
  have m7: "add64 0 ca1 = Inr ca1"
    unfolding add64_def ca1_def by (simp only: fl_a1_add) (simp add: finite64_def)
  have m8: "add64 0 (- ca2) = Inr (- ca2)"
    unfolding add64_def ca2_def by (simp only: fl_a2_add) (simp add: finite64_def)
  have z: "mul64 cfi 0 = Inr 0" "mul64 (- cfj) 0 = Inr 0"
    using fl_int [of 0] by (simp_all add: mul64_def finite64_def)
  have ur: "unit_range (Suc 0) 2 = [1, 2]" "unit_range (Suc 0) 1 = [1]" "unit_range (Suc (Suc 0)) 2 = [2]"
    by (simp_all add: unit_range_def upt_rec)
  have "accelerations64 [[0, 0], [0, 0]]
     [\<lparr>m = 1, x = [0, 0], v = [0, 0]\<rparr>, \<lparr>m = 39, x = [750, 0], v = [0, 0]\<rparr>] =
   Inr [[ca1, 0], [- ca2, 0]]"
    by (simp add: accelerations64_def pair_force64_def displacement64_def accumulate64_def add_at64_def
        getindex_def setindex_def fill_def similar_def ur unit_range_NDIM G S ints sq iv m1 m2 m3 m4 m5 m6 m7 m8 z)
  then show ?thesis
    by (simp only: ca1_def ca2_def)
qed

lemma is_digit_digit_char [simp]: "is_digit (digit_char k)"
  unfolding is_digit_def digit_char_def by (rule nth_mem) simp

lemma is_digit_not_special: "is_digit c \<Longrightarrow> c \<noteq> CHR ''.'' \<and> c \<noteq> CHR ''e'' \<and> c \<noteq> CHR ''-''"
  by (auto simp: is_digit_def)

lemma pad_digits: "length (pad n k) = n \<and> (\<forall>c \<in> set (pad n k). is_digit c)"
  by (induction n k rule: pad.induct) auto

lemma show_nat_digits: "\<forall>c \<in> set (show_nat k). is_digit c"
proof (induction k rule: show_nat.induct)
  case (1 k)
  show ?case
  proof (cases "k < 10")
    case True
    then show ?thesis
      by (subst show_nat.simps) simp
  next
    case False
    then show ?thesis
      using 1 by (subst show_nat.simps) simp
  qed
qed

lemma not_digit_special [simp]:
  "\<not> is_digit CHR ''.''" "\<not> is_digit CHR ''e''" "\<not> is_digit CHR ''-''"
  by (simp_all add: is_digit_def)

lemma decimals_shape:
  assumes "\<forall>c \<in> set pre. c \<noteq> CHR ''.''" and "\<forall>c \<in> set ds. is_digit c"
    and "rest = [] \<or> \<not> is_digit (hd rest)"
  shows "decimals (pre @ ''.'' @ ds @ rest) = ds"
proof -
  have "dropWhile (\<lambda>c. c \<noteq> CHR ''.'') (pre @ ''.'' @ ds @ rest) = ''.'' @ ds @ rest"
    using assms(1) by (simp add: dropWhile_append3)
  moreover have "takeWhile is_digit (ds @ rest) = ds"
    using assms(2,3) by (cases rest) (simp_all add: takeWhile_tail)
  ultimately show ?thesis
    by (simp add: decimals_def)
qed

lemma significant_shape:
  assumes "\<forall>c \<in> set sg. \<not> is_digit c \<and> c \<noteq> CHR ''e''" and "is_digit d"
    and "\<forall>c \<in> set ds. is_digit c"
  shows "significant (sg @ [d] @ ''.'' @ ds @ ''e'' @ rest) = Suc (length ds)"
proof -
  have ne: "c \<noteq> CHR ''e''" if "c \<in> set (sg @ [d] @ ''.'' @ ds)" for c
  proof -
    have "c \<in> set sg \<or> c = d \<or> c = CHR ''.'' \<or> c \<in> set ds"
      using that by auto
    then consider "c \<in> set sg" | "c = d" | "c = CHR ''.''" | "c \<in> set ds"
      by blast
    then show ?thesis
    proof cases
      case 1
      then show ?thesis using assms(1) by blast
    next
      case 2
      then show ?thesis using assms(2) is_digit_not_special by blast
    next
      case 3
      then show ?thesis by simp
    next
      case 4
      then show ?thesis using assms(3) is_digit_not_special by blast
    qed
  qed
  have "takeWhile (\<lambda>c. c \<noteq> CHR ''e'') ((sg @ [d] @ ''.'' @ ds) @ CHR ''e'' # rest) =
        takeWhile (\<lambda>c. c \<noteq> CHR ''e'') (sg @ [d] @ ''.'' @ ds)"
    by (rule takeWhile_tail) simp
  also have "\<dots> = sg @ [d] @ ''.'' @ ds"
    using ne by (simp only: takeWhile_eq_all_conv) blast
  finally have tw: "takeWhile (\<lambda>c. c \<noteq> CHR ''e'') (sg @ [d] @ ''.'' @ ds @ ''e'' @ rest) = sg @ [d] @ ''.'' @ ds"
    by simp
  have "filter is_digit sg = []"
    using assms(1) by (simp add: filter_empty_conv)
  moreover have "filter is_digit ds = ds"
    using assms(3) by (simp add: filter_id_conv)
  ultimately have "filter is_digit (sg @ [d] @ ''.'' @ ds) = d # ds"
    using assms(2) by simp
  then show ?thesis
    by (simp only: significant_def tw length_Cons)
qed

lemma sign_of_chars: "\<forall>c \<in> set (sign_of y). \<not> is_digit c \<and> c \<noteq> CHR ''e'' \<and> c \<noteq> CHR ''.''"
  by (simp add: sign_of_def)

lemma fmt_f_decimals: "length (decimals (fmt_f P y)) = P"
proof -
  let ?n = "nat (round_even (\<bar>y\<bar> * 10 ^ P))"
  have pre: "\<forall>c \<in> set (sign_of y @ show_nat (?n div 10 ^ P)). c \<noteq> CHR ''.''"
    using sign_of_chars [of y] show_nat_digits [of "?n div 10 ^ P"] is_digit_not_special by fastforce
  have ds: "\<forall>c \<in> set (pad P (?n mod 10 ^ P)). is_digit c" "length (pad P (?n mod 10 ^ P)) = P"
    using pad_digits [of P "?n mod 10 ^ P"] by simp_all
  have "decimals ((sign_of y @ show_nat (?n div 10 ^ P)) @ ''.'' @ pad P (?n mod 10 ^ P) @ []) =
        pad P (?n mod 10 ^ P)"
    by (rule decimals_shape [OF pre ds(1)]) simp
  moreover have "fmt_f P y = (sign_of y @ show_nat (?n div 10 ^ P)) @ ''.'' @ pad P (?n mod 10 ^ P) @ []"
    by (simp add: fmt_f_def Let_def)
  ultimately show ?thesis
    using ds(2) by (simp only:)
qed

lemma fmt_e_shape: "length (decimals (fmt_e P y)) = P \<and> significant (fmt_e P y) = Suc P"
proof -
  define e0 where "e0 = (if y = 0 then 0 else \<lfloor>log 10 \<bar>y\<bar>\<rfloor>)"
  define n0 where "n0 = nat (round_even (\<bar>y\<bar> * (if 0 \<le> e0 then 1 / 10 ^ nat e0 else 10 ^ nat (- e0)) * 10 ^ P))"
  define n where "n = (if n0 = 10 ^ (P + 1) then 10 ^ P else n0)"
  define e where "e = (if n0 = 10 ^ (P + 1) then e0 + 1 else e0)"
  define d where "d = digit_char (n div 10 ^ P)"
  define ds where "ds = pad P (n mod 10 ^ P)"
  define rest where "rest = (if e < 0 then ''-'' else ''+'') @ (if \<bar>e\<bar> < 10 then ''0'' else []) @ show_nat (nat \<bar>e\<bar>)"
  have f: "fmt_e P y = sign_of y @ [d] @ ''.'' @ ds @ ''e'' @ rest"
    unfolding fmt_e_def Let_def e0_def [symmetric] n0_def [symmetric] n_def [symmetric] e_def [symmetric]
      d_def [symmetric] ds_def [symmetric] rest_def [symmetric] by (rule refl)
  have d: "is_digit d"
    by (simp add: d_def)
  have ds: "\<forall>c \<in> set ds. is_digit c" "length ds = P"
    using pad_digits [of P "n mod 10 ^ P"] by (simp_all add: ds_def)
  have sg: "\<forall>c \<in> set (sign_of y). \<not> is_digit c \<and> c \<noteq> CHR ''e''"
    using sign_of_chars [of y] by blast
  have pre: "\<forall>c \<in> set (sign_of y @ [d]). c \<noteq> CHR ''.''"
    using sign_of_chars [of y] d is_digit_not_special [of d] by fastforce
  have "decimals ((sign_of y @ [d]) @ ''.'' @ ds @ (''e'' @ rest)) = ds"
    by (rule decimals_shape [OF pre ds(1)]) simp
  then have "decimals (fmt_e P y) = ds"
    by (simp only: f append_assoc)
  moreover have "significant (fmt_e P y) = Suc (length ds)"
    unfolding f by (rule significant_shape [OF sg d ds(1)])
  ultimately show ?thesis
    using ds(2) by simp
qed

lemma show_nat_small: "k < 10 \<Longrightarrow> show_nat k = [digit_char k]"
  by (subst show_nat.simps) simp

lemma positions_header_two: "positions_header 2 = ''t,x1_1,x1_2,x2_1,x2_2''"
proof -
  have "unit_range 1 (int 2) = [1, 2]"
    by (simp add: unit_range_def upt_rec)
  moreover have "unit_range 1 (int NDIM) = [1, 2]"
    using unit_range_NDIM by simp
  ultimately show ?thesis
    by (simp add: positions_header_def show_nat_small digit_char_def)
qed

lemma pad_zero: "pad n 0 = replicate n CHR ''0''"
  by (induction n) (simp_all add: digit_char_def replicate_append_same)

lemma fmt_e_one: "fmt_e 10 1 = ''1.0000000000e+00''"
proof -
  have e0: "(if (1::real) = 0 then 0 else \<lfloor>log 10 \<bar>1\<bar>\<rfloor>) = 0"
    by simp
  have "round_even (10000000000::real) = 10000000000"
    using round_even_of_int [of 10000000000] by simp
  then have n0: "nat (round_even (\<bar>1\<bar> * (if (0::int) \<le> 0 then 1 / 10 ^ nat 0 else 10 ^ nat (- 0)) * 10 ^ 10)) = 10000000000"
    by simp
  have ne: "(10000000000::nat) \<noteq> 10 ^ (10 + 1)"
    by simp
  have d: "digit_char (10000000000 div 10 ^ 10) = CHR ''1''"
    by (simp add: digit_char_def)
  have r10: "replicate 10 CHR ''0'' = ''0000000000''"
    by (simp add: eval_nat_numeral)
  have "(10000000000::nat) mod 10 ^ 10 = 0"
    by simp
  then have p: "pad 10 (10000000000 mod 10 ^ 10) = ''0000000000''"
    by (simp only: pad_zero r10)
  have s0: "show_nat (nat \<bar>0\<bar>) = ''0''"
    by (simp add: show_nat_small digit_char_def)
  have sg: "sign_of 1 = []"
    by (simp add: sign_of_def)
  show ?thesis
    unfolding fmt_e_def Let_def e0 n0
    by (simp only: ne if_False d p s0 sg) simp
qed

lemma fmt_f_zero: "fmt_f 6 0 = ''0.000000''"
proof -
  have "round_even (0::real) = 0"
    using round_even_of_int [of 0] by simp
  then have n: "nat (round_even (\<bar>0\<bar> * 10 ^ 6)) = 0"
    by simp
  have r6: "replicate 6 CHR ''0'' = ''000000''"
    by (simp add: eval_nat_numeral)
  have "(0::nat) mod 10 ^ 6 = 0"
    by simp
  then have p: "pad 6 (0 mod 10 ^ 6) = ''000000''"
    by (simp only: pad_zero r6)
  have s0: "show_nat (0 div 10 ^ 6) = ''0''"
    by (simp add: show_nat_small digit_char_def)
  have sg: "sign_of 0 = []"
    by (simp add: sign_of_def)
  show ?thesis
    unfolding fmt_f_def Let_def n by (simp only: p s0 sg) simp
qed

lemma foreach_collect:
  assumes "\<And>k ls. k \<in> set ks \<Longrightarrow> body k ls = Inr (ls @ [f k])"
  shows "foreach ks body ls = Inr (ls @ map f ks)"
  using assms by (induction ks arbitrary: ls) simp_all

lemma positions_csv_rows:
  assumes "length ts \<le> length ss"
  shows "positions_csv N ts ss =
         Inr (positions_header N #
              map (\<lambda>k. fmt_f 6 (ts ! k) @ concat (map (\<lambda>c. '','' @ fmt_e 10 c) (ss ! k))) [0..<length ts])"
proof -
  let ?row = "\<lambda>(k, t). fmt_f 6 t @ concat (map (\<lambda>c. '','' @ fmt_e 10 c) (ss ! (k - 1)))"
  have "positions_csv N ts ss = Inr ([positions_header N] @ map ?row (zip (unit_range 1 (int (length ts))) ts))"
    unfolding positions_csv_def
  proof (rule foreach_collect)
    fix kt :: "nat \<times> real" and ls :: "string list"
    assume "kt \<in> set (zip (unit_range 1 (int (length ts))) ts)"
    then have "fst kt \<in> set (unit_range 1 (int (length ts)))"
      by (metis prod.collapse set_zip_leftD)
    then have "1 \<le> fst kt" "fst kt \<le> length ss"
      using assms by (auto simp: unit_range_def)
    then show "(case kt of (k, t) \<Rightarrow> \<lambda>lines. bind_res (getindex ss k) (\<lambda>pos.
          Inr (lines @ [fmt_f 6 t @ concat (map (\<lambda>c. '','' @ fmt_e 10 c) pos)]))) ls = Inr (ls @ [?row kt])"
      by (cases kt) (simp add: getindex_ok)
  qed
  moreover have "map ?row (zip (unit_range 1 (int (length ts))) ts) =
                 map (\<lambda>k. fmt_f 6 (ts ! k) @ concat (map (\<lambda>c. '','' @ fmt_e 10 c) (ss ! k))) [0..<length ts]"
  proof (rule nth_equalityI)
    show "length (map ?row (zip (unit_range 1 (int (length ts))) ts)) =
          length (map (\<lambda>k. fmt_f 6 (ts ! k) @ concat (map (\<lambda>c. '','' @ fmt_e 10 c) (ss ! k))) [0..<length ts])"
      unfolding unit_range_full by simp
  next
    fix i
    assume "i < length (map ?row (zip (unit_range 1 (int (length ts))) ts))"
    then have i: "i < length ts"
      unfolding unit_range_full by simp
    then have "zip (unit_range 1 (int (length ts))) ts ! i = (Suc i, ts ! i)"
      unfolding unit_range_full by (simp del: upt_Suc)
    then show "map ?row (zip (unit_range 1 (int (length ts))) ts) ! i =
          map (\<lambda>k. fmt_f 6 (ts ! k) @ concat (map (\<lambda>c. '','' @ fmt_e 10 c) (ss ! k))) [0..<length ts] ! i"
      using i unfolding unit_range_full by (simp del: upt_Suc)
  qed
  ultimately show ?thesis
    by simp
qed

lemma energies_csv_rows:
  assumes "length es = length ts"
  shows "energies_csv ts es =
         ''t,E'' # map (\<lambda>k. fmt_f 6 (ts ! k) @ '','' @ fmt_e 10 (es ! k)) [0..<length ts]"
proof -
  have "map (\<lambda>(t, E). fmt_f 6 t @ '','' @ fmt_e 10 E) (zip ts es) =
        map (\<lambda>k. fmt_f 6 (ts ! k) @ '','' @ fmt_e 10 (es ! k)) [0..<length ts]"
    using assms by (intro nth_equalityI) simp_all
  then show ?thesis
    by (simp add: energies_csv_def)
qed

lemma recorded_default: "length (recorded OUTPUT_EVERY (nat NSTEPS)) = 101"
proof -
  have "1 \<le> OUTPUT_EVERY"
    by (simp add: OUTPUT_EVERY_def)
  then have "recorded OUTPUT_EVERY (nat NSTEPS) =
             map (\<lambda>q. q * nat OUTPUT_EVERY) [0..<Suc (nat NSTEPS div nat OUTPUT_EVERY)]"
    by (rule recorded_multiples)
  then show ?thesis
    by (simp add: NSTEPS_def OUTPUT_EVERY_def del: upt_Suc)
qed

subsection \<open>Continuity of the trajectory in the step size\<close>

lemma length_state_after [simp]: "length (state_after n dt bodies) = length bodies"
  by (induction n) (simp_all add: Let_def)
















section \<open>Properties of the program\<close>

subsection \<open>The integrator step\<close>

text \<open>
  C1. One call of the step on a well-shaped state returns bodies whose positions are
  \<open>position + velocity * dt + 0.5 * a\<^sub>n * dt\<^sup>2\<close> and whose velocities are
  \<open>velocity + 0.5 * a\<^sub>n * dt + 0.5 * a\<^sub>n\<^sub>+\<^sub>1 * dt\<close>, where the returned buffer \<open>a\<^sub>n\<^sub>+\<^sub>1\<close> is the kernel's
  result at the updated positions: running the kernel on the returned bodies, with any
  buffer of the right shape, gives \<open>a\<^sub>n\<^sub>+\<^sub>1\<close> again, so the state meets the precondition of
  the next call. Masses and shapes are unchanged.
\<close>

theorem vv_step_velocity_verlet:
  assumes "well_formed bodies" and "shaped a (length bodies)"
  shows "\<exists>bodies' a'. vv_step bodies a dt = Inr (bodies', a') \<and>
      well_formed bodies' \<and> length bodies' = length bodies \<and> shaped a' (length bodies) \<and>
      (\<forall>i<length bodies. m (bodies' ! i) = m (bodies ! i) \<and>
         (\<forall>c<NDIM.
            x (bodies' ! i) ! c = x (bodies ! i) ! c + v (bodies ! i) ! c * dt + 0.5 * a ! i ! c * dt\<^sup>2 \<and>
            v (bodies' ! i) ! c = v (bodies ! i) ! c + 0.5 * a ! i ! c * dt + 0.5 * a' ! i ! c * dt)) \<and>
      a' = map (\<lambda>i. map (spec_acceleration bodies' i) [0..<NDIM]) [0..<length bodies'] \<and>
      (\<forall>b. shaped b (length bodies') \<longrightarrow> accelerations b bodies' = Inr a')"
proof -
  obtain bodies' a' where st: "vv_step bodies a dt = Inr (bodies', a')"
      "well_formed bodies'" "length bodies' = length bodies" "shaped a' (length bodies)"
      "a' = kernel bodies'"
      "\<forall>i<length bodies. m (bodies' ! i) = m (bodies ! i) \<and>
         (\<forall>c<NDIM.
            x (bodies' ! i) ! c = x (bodies ! i) ! c + v (bodies ! i) ! c * dt + 0.5 * a ! i ! c * dt\<^sup>2 \<and>
            v (bodies' ! i) ! c = v (bodies ! i) ! c + 0.5 * a ! i ! c * dt + 0.5 * a' ! i ! c * dt)"
    using vv_step_components [OF assms, of dt] by blast
  have "a' = map (\<lambda>i. map (spec_acceleration bodies' i) [0..<NDIM]) [0..<length bodies']"
    using st(5) by (simp only: kernel_spec)
  moreover have "\<forall>b. shaped b (length bodies') \<longrightarrow> accelerations b bodies' = Inr a'"
    using accelerations_closed [OF st(2)] st(5) by simp
  ultimately show ?thesis
    using st by blast
qed

theorem vv_step_velocity_verlet_witness:
  "well_formed two_body_demo \<and> shaped [[1, 2], [3, 4]] (length two_body_demo) \<and>
   (\<exists>bodies' a'. vv_step two_body_demo [[1, 2], [3, 4]] DT = Inr (bodies', a') \<and>
      x (bodies' ! 1) ! 0 = x (two_body_demo ! 1) ! 0 + v (two_body_demo ! 1) ! 0 * DT + 0.5 * 3 * DT\<^sup>2 \<and>
      v (bodies' ! 1) ! 0 = v (two_body_demo ! 1) ! 0 + 0.5 * 3 * DT + 0.5 * a' ! 1 ! 0 * DT \<and>
      a' = map (\<lambda>i. map (spec_acceleration bodies' i) [0..<NDIM]) [0..<length bodies'] \<and>
      accelerations [[0, 0], [0, 0]] bodies' = Inr a')"
proof -
  have sh: "shaped [[1, 2], [3, 4]] (length two_body_demo)"
    by (simp add: shaped_def length_demo NDIM_def)
  obtain bodies' a' where st: "vv_step two_body_demo [[1, 2], [3, 4]] DT = Inr (bodies', a')"
      "length bodies' = length two_body_demo"
      "\<forall>i<length two_body_demo. m (bodies' ! i) = m (two_body_demo ! i) \<and>
         (\<forall>c<NDIM.
            x (bodies' ! i) ! c = x (two_body_demo ! i) ! c + v (two_body_demo ! i) ! c * DT +
              0.5 * [[1, 2], [3, 4]] ! i ! c * DT\<^sup>2 \<and>
            v (bodies' ! i) ! c = v (two_body_demo ! i) ! c + 0.5 * [[1, 2], [3, 4]] ! i ! c * DT +
              0.5 * a' ! i ! c * DT)"
      "a' = map (\<lambda>i. map (spec_acceleration bodies' i) [0..<NDIM]) [0..<length bodies']"
      "\<forall>b. shaped b (length bodies') \<longrightarrow> accelerations b bodies' = Inr a'"
    using vv_step_velocity_verlet [OF well_formed_demo sh, of DT] by blast
  have "shaped [[0, 0], [0, 0]] (length bodies')"
    by (simp add: shaped_def st(2) length_demo NDIM_def)
  then have "accelerations [[0, 0], [0, 0]] bodies' = Inr a'"
    using st(5) by blast
  moreover have "(1::nat) < length two_body_demo" "(0::nat) < NDIM"
    by (simp_all add: length_demo NDIM_def)
  then have "x (bodies' ! 1) ! 0 = x (two_body_demo ! 1) ! 0 + v (two_body_demo ! 1) ! 0 * DT + 0.5 * 3 * DT\<^sup>2 \<and>
      v (bodies' ! 1) ! 0 = v (two_body_demo ! 1) ! 0 + 0.5 * 3 * DT + 0.5 * a' ! 1 ! 0 * DT"
    using st(3) by fastforce
  ultimately show ?thesis
    using well_formed_demo sh st(1,4) by blast
qed

subsection \<open>The force kernel\<close>

text \<open>
  C2. For every well-shaped body array and every buffer of the matching shape, whatever
  the buffer held before, \<open>accelerations\<close> returns the buffer whose row \<open>i\<close> is the sum over
  all \<open>j \<noteq> i\<close> of \<open>G * mass\<^sub>j * (position\<^sub>j - position\<^sub>i) / (|position\<^sub>j - position\<^sub>i|\<^sup>2 + \<epsilon>\<^sup>2) powr (3/2)\<close>.
  The step for one pair \<open>i < j\<close> adds \<open>mass\<^sub>j * p\<close> to row \<open>i\<close> and \<open>- mass\<^sub>i * p\<close> to row \<open>j\<close>
  for one and the same \<open>p\<close>, and leaves every other row as it is.
\<close>

theorem accelerations_pairwise_sum:
  assumes "well_formed bodies" and "shaped a (length bodies)"
  shows "accelerations a bodies =
           Inr (map (\<lambda>i. map (spec_acceleration bodies i) [0..<NDIM]) [0..<length bodies]) \<and>
         (\<forall>i j. 1 \<le> i \<and> i < j \<and> j \<le> length bodies \<longrightarrow>
            (\<exists>a'. pair_force bodies (SOFTENING\<^sup>2) i (x (bodies ! (i - 1))) (m (bodies ! (i - 1))) j a = Inr a' \<and>
               (\<forall>k<length bodies. \<forall>c<NDIM. a' ! k ! c = a ! k ! c +
                  (if k = i - 1 then m (bodies ! (j - 1)) * pull bodies (i - 1) (j - 1) c
                   else if k = j - 1 then - m (bodies ! (i - 1)) * pull bodies (i - 1) (j - 1) c
                   else 0))))"
proof (intro conjI allI impI)
  show "accelerations a bodies =
           Inr (map (\<lambda>i. map (spec_acceleration bodies i) [0..<NDIM]) [0..<length bodies])"
    using accelerations_closed [OF assms] by (simp only: kernel_spec)
next
  fix i j
  assume ij: "1 \<le> i \<and> i < j \<and> j \<le> length bodies"
  then obtain a' where a': "pair_force bodies (SOFTENING\<^sup>2) i (x (bodies ! (i - 1))) (m (bodies ! (i - 1))) j a = Inr a'"
      "\<forall>k<length bodies. \<forall>c<2. a' ! k ! c = a ! k ! c + contrib bodies (i - 1) (j - 1) k c"
    using pair_force_ok [OF assms, of i j] by blast
  have "contrib bodies (i - 1) (j - 1) k c =
          (if k = i - 1 then m (bodies ! (j - 1)) * pull bodies (i - 1) (j - 1) c
           else if k = j - 1 then - m (bodies ! (i - 1)) * pull bodies (i - 1) (j - 1) c
           else 0)" for k c
    using ij by (simp add: contrib_def pull_def)
  with a' show "\<exists>a'. pair_force bodies (SOFTENING\<^sup>2) i (x (bodies ! (i - 1))) (m (bodies ! (i - 1))) j a = Inr a' \<and>
               (\<forall>k<length bodies. \<forall>c<NDIM. a' ! k ! c = a ! k ! c +
                  (if k = i - 1 then m (bodies ! (j - 1)) * pull bodies (i - 1) (j - 1) c
                   else if k = j - 1 then - m (bodies ! (i - 1)) * pull bodies (i - 1) (j - 1) c
                   else 0))"
    by (simp add: NDIM_def)
qed

theorem accelerations_pairwise_sum_witness:
  "well_formed two_body_demo \<and> shaped [[1, 2], [3, 4]] (length two_body_demo) \<and>
   accelerations [[1, 2], [3, 4]] two_body_demo =
     Inr (map (\<lambda>i. map (spec_acceleration two_body_demo i) [0..<NDIM]) [0..<length two_body_demo]) \<and>
   (\<exists>a'. pair_force two_body_demo (SOFTENING\<^sup>2) 1 (x (two_body_demo ! 0)) (m (two_body_demo ! 0)) 2
            [[1, 2], [3, 4]] = Inr a' \<and>
         a' ! 0 ! 0 = 1 + m (two_body_demo ! 1) * pull two_body_demo 0 1 0 \<and>
         a' ! 1 ! 0 = 3 - m (two_body_demo ! 0) * pull two_body_demo 0 1 0)"
proof -
  have wf: "well_formed two_body_demo"
    by (simp add: well_formed_def two_body_demo_def NDIM_def Let_def)
  have sh: "shaped [[1, 2], [3, 4]] (length two_body_demo)"
    by (simp add: shaped_def two_body_demo_def NDIM_def Let_def)
  have len: "length two_body_demo = 2"
    by (simp add: two_body_demo_def Let_def)
  note th = accelerations_pairwise_sum [OF wf sh]
  have ij: "1 \<le> (1::nat) \<and> (1::nat) < 2 \<and> 2 \<le> length two_body_demo"
    using len by simp
  from th have "\<forall>i j. 1 \<le> i \<and> i < j \<and> j \<le> length two_body_demo \<longrightarrow>
            (\<exists>a'. pair_force two_body_demo (SOFTENING\<^sup>2) i (x (two_body_demo ! (i - 1))) (m (two_body_demo ! (i - 1))) j
                     [[1, 2], [3, 4]] = Inr a' \<and>
               (\<forall>k<length two_body_demo. \<forall>c<NDIM. a' ! k ! c = [[1, 2], [3, 4]] ! k ! c +
                  (if k = i - 1 then m (two_body_demo ! (j - 1)) * pull two_body_demo (i - 1) (j - 1) c
                   else if k = j - 1 then - m (two_body_demo ! (i - 1)) * pull two_body_demo (i - 1) (j - 1) c
                   else 0)))"
    by (rule conjunct2)
  from this [rule_format, of 1 2, OF ij] obtain a'
    where a0: "pair_force two_body_demo (SOFTENING\<^sup>2) 1 (x (two_body_demo ! (1 - 1))) (m (two_body_demo ! (1 - 1))) 2
            [[1, 2], [3, 4]] = Inr a'"
     and vals: "\<forall>k<length two_body_demo. \<forall>c<NDIM. a' ! k ! c = [[1, 2], [3, 4]] ! k ! c +
                  (if k = 1 - 1 then m (two_body_demo ! (2 - 1)) * pull two_body_demo (1 - 1) (2 - 1) c
                   else if k = 2 - 1 then - m (two_body_demo ! (1 - 1)) * pull two_body_demo (1 - 1) (2 - 1) c
                   else 0)"
    by blast
  have a': "pair_force two_body_demo (SOFTENING\<^sup>2) 1 (x (two_body_demo ! 0)) (m (two_body_demo ! 0)) 2
            [[1, 2], [3, 4]] = Inr a'"
    using a0 by simp
  have "a' ! 0 ! 0 = 1 + m (two_body_demo ! 1) * pull two_body_demo 0 1 0"
    using vals len by (simp add: NDIM_def)
  moreover have "a' ! 1 ! 0 = 3 - m (two_body_demo ! 0) * pull two_body_demo 0 1 0"
    using vals len by (simp add: NDIM_def)
  ultimately show ?thesis
    using wf sh th a' by blast
qed

subsection \<open>The energy diagnostic\<close>

text \<open>
  C3. On well-shaped bodies the energy diagnostic returns \<open>K + U\<close> with
  \<open>K = \<Sum>\<^sub>i 0.5 * mass\<^sub>i * |velocity\<^sub>i|\<^sup>2\<close> and
  \<open>U = - \<Sum>\<^sub>i\<^sub><\<^sub>j G * mass\<^sub>i * mass\<^sub>j / sqrt (|position\<^sub>j - position\<^sub>i|\<^sup>2 + \<epsilon>\<^sup>2)\<close>, with the softening
  constant of the kernel. The function reads the bodies and writes nothing: its model
  returns the number only.
\<close>

theorem total_energy_kinetic_plus_potential:
  assumes "well_formed bodies"
  shows "total_energy bodies = Inr (spec_kinetic bodies + spec_potential bodies)"
  by (rule total_energy_closed [OF assms])

theorem total_energy_kinetic_plus_potential_witness:
  "well_formed [\<lparr>m = 2, x = [0, 0], v = [3, 4]\<rparr>, \<lparr>m = 5, x = [750, 0], v = [0, 1]\<rparr>] \<and>
   total_energy [\<lparr>m = 2, x = [0, 0], v = [3, 4]\<rparr>, \<lparr>m = 5, x = [750, 0], v = [0, 1]\<rparr>] =
     Inr (55 / 2 - G * 10 / 1250)"
proof -
  let ?bs = "[\<lparr>m = 2, x = [0, 0], v = [3, 4]\<rparr>, \<lparr>m = 5, x = [750, 0], v = [0, 1]\<rparr>]"
  have wf: "well_formed ?bs"
    by (simp add: well_formed_def NDIM_def)
  have two: "(\<Sum>i<2. f i) = f 0 + f (1::nat)" for f :: "nat \<Rightarrow> real"
    by (simp add: lessThan_Suc numeral_2_eq_2)
  have "sqrt 1562500 = 1250"
    by (rule real_sqrt_unique) simp_all
  then have "spec_kinetic ?bs + spec_potential ?bs = 55 / 2 - G * 10 / 1250"
    by (simp add: spec_kinetic_def spec_potential_def two sum_NDIM SOFTENING_def)
  then show ?thesis
    using total_energy_kinetic_plus_potential [OF wf] wf by simp
qed

subsection \<open>Conservation of momentum\<close>

text \<open>
  C4. From a well-shaped state whose buffer holds the accelerations at the current
  positions, any number \<open>n\<close> of successive steps with any \<open>dt\<close> succeeds and leaves every
  component of the total linear momentum \<open>\<Sum>\<^sub>i mass\<^sub>i * velocity\<^sub>i\<close> as it was (in the exact
  arithmetic of this model).
\<close>

theorem momentum_conserved:
  assumes "well_formed bodies" and "shaped a (length bodies)" and "accelerations a bodies = Inr a"
  shows "\<exists>bodies' a'. advance n dt (bodies, a) = Inr (bodies', a') \<and>
           (\<forall>c<NDIM. momentum bodies' c = momentum bodies c)"
proof -
  have "a = kernel bodies"
    using accelerations_closed [OF assms(1,2)] assms(3) by simp
  then show ?thesis
    using advance_invariant [OF assms(1), of n dt] by (auto simp: NDIM_def)
qed

theorem momentum_conserved_witness:
  "well_formed two_body_demo \<and> shaped (kernel two_body_demo) (length two_body_demo) \<and>
   accelerations (kernel two_body_demo) two_body_demo = Inr (kernel two_body_demo) \<and>
   (\<exists>bodies' a'. advance 3 DT (two_body_demo, kernel two_body_demo) = Inr (bodies', a') \<and>
      momentum bodies' 0 = 0 \<and> momentum bodies' 1 = 0)"
proof -
  have sh: "shaped (kernel two_body_demo) (length two_body_demo)"
    by (rule shaped_kernel)
  have fp: "accelerations (kernel two_body_demo) two_body_demo = Inr (kernel two_body_demo)"
    by (rule accelerations_closed [OF well_formed_demo sh])
  obtain bodies' a' where st: "advance 3 DT (two_body_demo, kernel two_body_demo) = Inr (bodies', a')"
      "\<forall>c<NDIM. momentum bodies' c = momentum two_body_demo c"
    using momentum_conserved [OF well_formed_demo sh fp, of 3 DT] by blast
  have "momentum bodies' 0 = 0 \<and> momentum bodies' 1 = 0"
    using st(2) momentum_demo by (simp add: NDIM_def)
  then show ?thesis
    using well_formed_demo sh fp st(1) by blast
qed

subsection \<open>Energy drift\<close>



subsection \<open>The driver\<close>

text \<open>
  C6, as stated, fails: with \<open>output_every = 0\<close> the remainder \<^verbatim>\<open>k % output_every\<close>
  raises \<^verbatim>\<open>DivideError\<close> after the first step; a negative \<open>nsteps\<close> gives the one
  sample at \<open>t = 0\<close>, a negative \<open>output_every\<close> records after every \<open>|output_every|\<close>-th
  step, where \<open>1 + floor (nsteps / output_every)\<close> is \<open>0\<close> in both cases; and for an empty
  body array the first sample cannot be built.
\<close>

theorem simulate_every_input_counterexample:
  "simulate two_body_demo DT 1 0 = Inl DivideError \<and>
   simulate two_body_demo DT (- 1) 1 = Inr (trajectory_of DT two_body_demo [0], two_body_demo) \<and>
   times (trajectory_of DT two_body_demo [0]) = [0] \<and>
   simulate two_body_demo DT 1 (- 1) =
     Inr (trajectory_of DT two_body_demo [0, 1], state_after 1 DT two_body_demo) \<and>
   times (trajectory_of DT two_body_demo [0, 1]) = [0, DT] \<and>
   1 + (- 1 :: int) div 1 = 0 \<and> 1 + (1 :: int) div (- 1) = 0 \<and>
   simulate [] DT 1 1 = Inl ArgumentError"
proof -
  have ne: "two_body_demo \<noteq> []"
    using length_demo by auto
  have wf1: "well_formed (state_after 1 DT two_body_demo)"
    using state_after_wf [OF well_formed_demo, of 1 DT] by simp
  have "vv_step two_body_demo (kernel two_body_demo) DT =
        Inr (state_after 1 DT two_body_demo, kernel (state_after 1 DT two_body_demo))"
    using advance_state_after [OF well_formed_demo, of 1 DT] by simp
  then have "sim_step DT 0 1 (two_body_demo, kernel two_body_demo, 0, trajectory_of DT two_body_demo [0]) =
             Inl DivideError"
    by (simp add: sim_step_def rem_i_def)
  then have 1: "simulate two_body_demo DT 1 0 = Inl DivideError"
    by (simp add: simulate_start [OF well_formed_demo ne] upto_rec1)
  have 2: "simulate two_body_demo DT (- 1) 1 = Inr (trajectory_of DT two_body_demo [0], two_body_demo)"
    using simulate_closed [OF well_formed_demo ne, of 1 DT "- 1"] by (simp add: recorded_def)
  have 3: "simulate two_body_demo DT 1 (- 1) =
             Inr (trajectory_of DT two_body_demo [0, 1], state_after 1 DT two_body_demo)"
    using simulate_closed [OF well_formed_demo ne, of "- 1" DT 1]
    by (simp add: recorded_def smod_int_alt_def)
  have 4: "simulate [] DT 1 1 = Inl ArgumentError"
    by (simp add: simulate_def accelerations_def unit_range_def record_sample_def total_energy_def
        kinetic_def potential_def positions_def reduce_vcat_def)
  show ?thesis
    using 1 2 3 4 by (simp add: trajectory_of_def)
qed

text \<open>
  C6, amended. For every non-empty well-shaped body array, every \<open>dt\<close>, every
  \<open>nsteps \<ge> 0\<close> and every \<open>output_every \<ge> 1\<close>, the driver computes the initial accelerations
  once, from a zeroed buffer, performs \<open>nsteps\<close> successive steps from them, and returns
  exactly \<open>1 + nsteps div output_every\<close> samples: sample \<open>q\<close> has time
  \<open>q * output_every * dt\<close> and holds the total energy and the concatenated positions of the
  bodies after \<open>q * output_every\<close> steps.
\<close>

theorem simulate_records_samples:
  assumes "well_formed bodies" and "bodies \<noteq> []" and "0 \<le> nsteps" and "1 \<le> output_every"
  shows "\<exists>a0 tr bodies' a'.
      accelerations (replicate (length bodies) (replicate NDIM 0)) bodies = Inr a0 \<and>
      simulate bodies dt nsteps output_every = Inr (tr, bodies') \<and>
      advance (nat nsteps) dt (bodies, a0) = Inr (bodies', a') \<and>
      length (times tr) = 1 + nat (nsteps div output_every) \<and>
      length (energies tr) = 1 + nat (nsteps div output_every) \<and>
      length (samples tr) = 1 + nat (nsteps div output_every) \<and>
      (\<forall>q \<le> nat (nsteps div output_every).
         times tr ! q = real q * real_of_int output_every * dt \<and>
         (\<exists>bq aq. advance (q * nat output_every) dt (bodies, a0) = Inr (bq, aq) \<and>
                  total_energy bq = Inr (energies tr ! q) \<and>
                  samples tr ! q = concat (map x bq)))"
proof -
  let ?n = "nat nsteps" and ?d = "nat output_every"
  let ?ks = "map (\<lambda>q. q * ?d) [0..<Suc (?n div ?d)]"
  let ?tr = "trajectory_of dt bodies ?ks"
  have cnt: "nat (nsteps div output_every) = ?n div ?d"
    using assms(3) by (simp add: nat_div_distrib)
  have acc: "accelerations (replicate (length bodies) (replicate NDIM 0)) bodies = Inr (kernel bodies)"
    by (rule accelerations_closed [OF assms(1) shaped_zero])
  have "output_every \<noteq> 0"
    using assms(4) by simp
  then have run: "simulate bodies dt nsteps output_every = Inr (?tr, state_after ?n dt bodies)"
    using simulate_closed [OF assms(1,2), of output_every dt nsteps] recorded_multiples [OF assms(4), of ?n]
    by simp
  have adv: "advance k dt (bodies, kernel bodies) = Inr (state_after k dt bodies, kernel (state_after k dt bodies))" for k
    by (rule advance_state_after [OF assms(1)])
  have len: "length (times ?tr) = 1 + ?n div ?d" "length (energies ?tr) = 1 + ?n div ?d"
      "length (samples ?tr) = 1 + ?n div ?d"
    by (simp_all add: trajectory_of_def)
  have smp: "times ?tr ! q = real q * real_of_int output_every * dt \<and>
         (\<exists>bq aq. advance (q * ?d) dt (bodies, kernel bodies) = Inr (bq, aq) \<and>
                  total_energy bq = Inr (energies ?tr ! q) \<and>
                  samples ?tr ! q = concat (map x bq))" if "q \<le> ?n div ?d" for q
  proof -
    have q: "q < length [0..<Suc (?n div ?d)]"
      using that by simp
    have nth: "[0..<Suc (?n div ?d)] ! q = q"
      using that by (simp add: nth_upt del: upt_Suc)
    have "real (q * ?d) = real q * real_of_int output_every"
      using assms(4) by simp
    then have "times ?tr ! q = real q * real_of_int output_every * dt"
      using q nth by (simp add: trajectory_of_def nth_map del: upt_Suc)
    moreover have "total_energy (state_after (q * ?d) dt bodies) = Inr (energies ?tr ! q)"
      using q nth total_energy_closed [OF conjunct1 [OF state_after_wf [OF assms(1)]], of "q * ?d" dt]
      by (simp add: trajectory_of_def nth_map del: upt_Suc)
    moreover have "samples ?tr ! q = concat (map x (state_after (q * ?d) dt bodies))"
      using q nth by (simp add: trajectory_of_def nth_map del: upt_Suc)
    ultimately show ?thesis
      using adv [of "q * ?d"] by blast
  qed
  show ?thesis
    using acc run adv [of ?n] len smp unfolding cnt by blast
qed

theorem simulate_records_samples_witness:
  "well_formed two_body_demo \<and> two_body_demo \<noteq> [] \<and> 0 \<le> NSTEPS \<and> 1 \<le> OUTPUT_EVERY \<and>
   (\<exists>tr bodies'. simulate two_body_demo DT NSTEPS OUTPUT_EVERY = Inr (tr, bodies') \<and>
      length (times tr) = 101 \<and> length (energies tr) = 101 \<and> length (samples tr) = 101 \<and>
      times tr ! 0 = 0 \<and> times tr ! 1 = 100 \<and> times tr ! 100 = 10000 \<and>
      total_energy two_body_demo = Inr (energies tr ! 0) \<and>
      samples tr ! 0 = concat (map x two_body_demo))"
proof -
  have ne: "two_body_demo \<noteq> []"
    using length_demo by auto
  have h: "0 \<le> NSTEPS" "1 \<le> OUTPUT_EVERY"
    by (simp_all add: NSTEPS_def OUTPUT_EVERY_def)
  have cnt: "nat (NSTEPS div OUTPUT_EVERY) = 100"
    by (simp add: NSTEPS_def OUTPUT_EVERY_def)
  obtain a0 tr bodies' a' where st:
      "simulate two_body_demo DT NSTEPS OUTPUT_EVERY = Inr (tr, bodies')"
      "length (times tr) = 1 + nat (NSTEPS div OUTPUT_EVERY)"
      "length (energies tr) = 1 + nat (NSTEPS div OUTPUT_EVERY)"
      "length (samples tr) = 1 + nat (NSTEPS div OUTPUT_EVERY)"
      "\<forall>q \<le> nat (NSTEPS div OUTPUT_EVERY).
         times tr ! q = real q * real_of_int OUTPUT_EVERY * DT \<and>
         (\<exists>bq aq. advance (q * nat OUTPUT_EVERY) DT (two_body_demo, a0) = Inr (bq, aq) \<and>
                  total_energy bq = Inr (energies tr ! q) \<and>
                  samples tr ! q = concat (map x bq))"
    using simulate_records_samples [OF well_formed_demo ne h, of DT] by blast
  have t: "times tr ! 0 = 0" "times tr ! 1 = 100" "times tr ! 100 = 10000"
    using st(5) cnt by (simp_all add: OUTPUT_EVERY_def DT_def)
  have "\<exists>bq aq. advance (0 * nat OUTPUT_EVERY) DT (two_body_demo, a0) = Inr (bq, aq) \<and>
                  total_energy bq = Inr (energies tr ! 0) \<and>
                  samples tr ! 0 = concat (map x bq)"
    using st(5) by blast
  then have "total_energy two_body_demo = Inr (energies tr ! 0) \<and> samples tr ! 0 = concat (map x two_body_demo)"
    by simp
  then show ?thesis
    using well_formed_demo ne h st(1-4) t cnt by simp
qed

subsection \<open>Symmetry of the two-body kernel\<close>

text \<open>
  C7, as stated, fails on the program's own numbers. In binary64 arithmetic (every
  operation of the kernel rounded to nearest, ties to even) the bodies of masses \<open>1\<close> and
  \<open>39\<close> at \<open>(0, 0)\<close> and \<open>(750, 0)\<close> get first components \<open>a\<^sub>1\<close> and \<open>a\<^sub>2\<close> for which the
  products \<open>a\<^sub>1 * mass\<^sub>1\<close> and \<open>- a\<^sub>2 * mass\<^sub>2\<close> differ in the last place, whether the two
  products are themselves rounded or taken exactly.
\<close>

theorem two_body_symmetry_binary64_counterexample:
  "accelerations64 [[0, 0], [0, 0]]
     [\<lparr>m = 1, x = [0, 0], v = [0, 0]\<rparr>, \<lparr>m = 39, x = [750, 0], v = [0, 0]\<rparr>] =
     Inr [[5068285987476904 / 2 ^ 102, 0], [- (8317187261500559 / 2 ^ 108), 0]] \<and>
   mul64 (5068285987476904 / 2 ^ 102) 1 = Inr (5068285987476904 / 2 ^ 102) \<and>
   mul64 (- (- (8317187261500559 / 2 ^ 108))) 39 = Inr (5068285987476903 / 2 ^ 102) \<and>
   (5068285987476904 / 2 ^ 102 :: real) \<noteq> 5068285987476903 / 2 ^ 102 \<and>
   (5068285987476904 / 2 ^ 102 :: real) * 1 \<noteq> - (- (8317187261500559 / 2 ^ 108)) * 39"
proof -
  have "mul64 (5068285987476904 / 2 ^ 102) 1 = Inr (5068285987476904 / 2 ^ 102)"
    unfolding mul64_def by (simp only: fl_p1) (simp add: finite64_def)
  moreover have "mul64 (8317187261500559 / 2 ^ 108) 39 = Inr (5068285987476903 / 2 ^ 102)"
    unfolding mul64_def by (simp only: fl_p2) (simp add: finite64_def)
  ultimately show ?thesis
    using accelerations64_example by simp
qed

text \<open>
  C7. For two bodies the kernel's two rows satisfy, component by component,
  \<open>acceleration\<^sub>1 * mass\<^sub>1 = - acceleration\<^sub>2 * mass\<^sub>2\<close> (in the exact arithmetic of this model).
\<close>

theorem two_body_symmetry:
  assumes "well_formed [b1, b2]" and "shaped a 2"
  shows "\<exists>a1 a2. accelerations a [b1, b2] = Inr [a1, a2] \<and>
                 (\<forall>c<NDIM. a1 ! c * m b1 = - (a2 ! c) * m b2)"
proof -
  have "accelerations a [b1, b2] = Inr (kernel [b1, b2])"
    using assms by (intro accelerations_closed) (simp_all add: numeral_2_eq_2)
  moreover have "pull [b1, b2] 1 0 c = - pull [b1, b2] 0 1 c" for c
    by (rule pull_antisym)
  ultimately show ?thesis
    by (simp add: kernel_two NDIM_def less_Suc_eq numeral_2_eq_2)
qed

theorem two_body_symmetry_witness:
  "well_formed two_body_demo \<and> shaped [[1, 2], [3, 4]] 2 \<and>
   (\<exists>a1 a2. accelerations [[1, 2], [3, 4]] two_body_demo = Inr [a1, a2] \<and>
      a1 ! 0 * (5.972 * 10 ^ 24) = - (a2 ! 0) * (7.348 * 10 ^ 22) \<and>
      a1 ! 1 * (5.972 * 10 ^ 24) = - (a2 ! 1) * (7.348 * 10 ^ 22))"
proof -
  let ?b1 = "\<lparr>m = 5.972 * 10 ^ 24, x = [- (7.348 * 10 ^ 22) / (5.972 * 10 ^ 24 + 7.348 * 10 ^ 22) * (4.0 * 10 ^ 7), 0],
              v = [0, - (7.348 * 10 ^ 22) / (5.972 * 10 ^ 24 + 7.348 * 10 ^ 22) *
                       sqrt (G * (5.972 * 10 ^ 24 + 7.348 * 10 ^ 22) / (4.0 * 10 ^ 7))]\<rparr>"
  let ?b2 = "\<lparr>m = 7.348 * 10 ^ 22, x = [5.972 * 10 ^ 24 / (5.972 * 10 ^ 24 + 7.348 * 10 ^ 22) * (4.0 * 10 ^ 7), 0],
              v = [0, 5.972 * 10 ^ 24 / (5.972 * 10 ^ 24 + 7.348 * 10 ^ 22) *
                       sqrt (G * (5.972 * 10 ^ 24 + 7.348 * 10 ^ 22) / (4.0 * 10 ^ 7))]\<rparr>"
  have demo: "two_body_demo = [?b1, ?b2]"
    by (simp add: two_body_demo_def Let_def)
  have wf: "well_formed [?b1, ?b2]"
    by (simp add: well_formed_def NDIM_def)
  have sh: "shaped [[1, 2], [3, 4]] 2"
    by (simp add: shaped_def NDIM_def)
  from two_body_symmetry [OF wf sh] obtain a1 a2
    where "accelerations [[1, 2], [3, 4]] [?b1, ?b2] = Inr [a1, a2]"
      and "\<forall>c<NDIM. a1 ! c * m ?b1 = - (a2 ! c) * m ?b2"
    by blast
  then have "accelerations [[1, 2], [3, 4]] two_body_demo = Inr [a1, a2] \<and>
      a1 ! 0 * (5.972 * 10 ^ 24) = - (a2 ! 0) * (7.348 * 10 ^ 22) \<and>
      a1 ! 1 * (5.972 * 10 ^ 24) = - (a2 ! 1) * (7.348 * 10 ^ 22)"
    unfolding demo by (simp add: NDIM_def)
  then show ?thesis
    using wf sh unfolding demo by blast
qed

subsection \<open>Softening and division by zero\<close>

text \<open>
  C8. Whatever the bodies are (any masses, coincident positions, any shapes), neither the
  kernel nor the energy diagnostic divides by zero: the softened squared separation is
  strictly positive for every pair, so the result \<open>Inl NonFinite\<close> never arises.
\<close>

theorem softening_excludes_division_by_zero:
  "accelerations a bodies \<noteq> Inl NonFinite \<and> total_energy bodies \<noteq> Inl NonFinite \<and>
   0 < soft bodies p q \<and> sqrt (soft bodies p q) * soft bodies p q \<noteq> 0"
  using soft_pos [of bodies p q]
  by (simp add: accelerations_finite total_energy_finite)

subsection \<open>The files written by main\<close>

text \<open>
  C9, as stated, fails: \<^verbatim>\<open>%.10e\<close> prints ten digits after the point, that is eleven
  significant digits, not ten. The energy \<open>1\<close> at time \<open>0\<close> gives the row
  \<^verbatim>\<open>0.000000,1.0000000000e+00\<close>.
\<close>

theorem csv_significant_digits_counterexample:
  "energies_csv [0] [1] = [''t,E'', ''0.000000,1.0000000000e+00''] \<and>
   fmt_e 10 1 = ''1.0000000000e+00'' \<and>
   significant (fmt_e 10 1) = 11"
  using fmt_e_shape [of 10 1] by (simp add: energies_csv_def fmt_e_one fmt_f_zero)

text \<open>
  C9, amended. \<^verbatim>\<open>main\<close> runs the driver on \<^verbatim>\<open>two_body_demo\<close> with the default parameters
  and writes two files. \<^verbatim>\<open>energies.csv\<close> has the header \<^verbatim>\<open>t,E\<close> and one row per recorded
  sample, \<open>t\<close> with six decimals and \<open>E\<close> in scientific notation with ten digits after the
  point (eleven significant digits). \<^verbatim>\<open>positions.csv\<close> has the header
  \<^verbatim>\<open>t,x1_1,x1_2,x2_1,x2_2\<close> and one row per recorded sample, \<open>t\<close> as before and every
  position component in the same scientific notation.
\<close>

theorem main_csv_output:
  "\<exists>tr bodies' es ps.
     simulate two_body_demo DT NSTEPS OUTPUT_EVERY = Inr (tr, bodies') \<and>
     main = Inr (es, ps) \<and>
     length (times tr) = 101 \<and>
     es = ''t,E'' #
          map (\<lambda>k. fmt_f 6 (times tr ! k) @ '','' @ fmt_e 10 (energies tr ! k)) [0..<length (times tr)] \<and>
     ps = ''t,x1_1,x1_2,x2_1,x2_2'' #
          map (\<lambda>k. fmt_f 6 (times tr ! k) @ concat (map (\<lambda>c. '','' @ fmt_e 10 c) (samples tr ! k)))
            [0..<length (times tr)] \<and>
     (\<forall>y. length (decimals (fmt_f 6 y)) = 6 \<and> length (decimals (fmt_e 10 y)) = 10 \<and>
          significant (fmt_e 10 y) = 11)"
proof -
  let ?ks = "recorded OUTPUT_EVERY (nat NSTEPS)"
  let ?tr = "trajectory_of DT two_body_demo ?ks"
  let ?b = "state_after (nat NSTEPS) DT two_body_demo"
  have ne: "two_body_demo \<noteq> []"
    using length_demo by auto
  have "OUTPUT_EVERY \<noteq> 0"
    by (simp add: OUTPUT_EVERY_def)
  then have run: "simulate two_body_demo DT NSTEPS OUTPUT_EVERY = Inr (?tr, ?b)"
    by (rule simulate_closed [OF well_formed_demo ne])
  have len: "length (times ?tr) = 101" "length (energies ?tr) = length (times ?tr)"
      "length (times ?tr) \<le> length (samples ?tr)"
    using recorded_default by (simp_all add: trajectory_of_def)
  have lb: "length ?b = 2"
    using state_after_wf [OF well_formed_demo, of "nat NSTEPS" DT] length_demo by simp
  have "main = Inr (energies_csv (times ?tr) (energies ?tr),
                    positions_header 2 #
                    map (\<lambda>k. fmt_f 6 (times ?tr ! k) @ concat (map (\<lambda>c. '','' @ fmt_e 10 c) (samples ?tr ! k)))
                      [0..<length (times ?tr)])"
    by (simp only: main_def Let_def run bind_res_Inr prod.case lb positions_csv_rows [OF len(3)])
  then have "main = Inr (''t,E'' #
          map (\<lambda>k. fmt_f 6 (times ?tr ! k) @ '','' @ fmt_e 10 (energies ?tr ! k)) [0..<length (times ?tr)],
          ''t,x1_1,x1_2,x2_1,x2_2'' #
          map (\<lambda>k. fmt_f 6 (times ?tr ! k) @ concat (map (\<lambda>c. '','' @ fmt_e 10 c) (samples ?tr ! k)))
            [0..<length (times ?tr)])"
    by (simp only: energies_csv_rows [OF len(2)] positions_header_two)
  moreover have "\<forall>y. length (decimals (fmt_f 6 y)) = 6 \<and> length (decimals (fmt_e 10 y)) = 10 \<and>
          significant (fmt_e 10 y) = 11"
    using fmt_f_decimals [of 6] fmt_e_shape [of 10] by simp
  ultimately show ?thesis
    using run len(1) by blast
qed

subsection \<open>Fewer than two bodies\<close>

text \<open>
  C10. With fewer than two bodies (and well-shaped arguments) the kernel returns the
  all-zero buffer and the energy diagnostic returns the kinetic energy alone, the potential
  being zero; one step on a single body, from the kernel's buffer, moves the position to
  \<open>position + velocity * dt\<close> and leaves the velocity and the buffer as they were.
\<close>

theorem fewer_than_two_bodies:
  assumes "length bodies < 2" and "well_formed bodies" and "shaped a (length bodies)"
  shows "accelerations a bodies = Inr (replicate (length bodies) (replicate NDIM 0)) \<and>
         potential bodies = Inr 0 \<and>
         total_energy bodies = Inr (spec_kinetic bodies) \<and>
         total_energy bodies = kinetic bodies \<and>
         (\<forall>b. bodies = [b] \<longrightarrow>
            vv_step [b] [replicate NDIM 0] dt =
              Inr ([b\<lparr>x := map (\<lambda>c. x b ! c + v b ! c * dt) [0..<NDIM]\<rparr>], [replicate NDIM 0]))"
proof (intro conjI allI impI)
  show "accelerations a bodies = Inr (replicate (length bodies) (replicate NDIM 0))"
    using accelerations_closed [OF assms(2,3)] kernel_small [OF assms(1)] by simp
  show "potential bodies = Inr 0"
    using potential_closed [OF assms(2)] spec_potential_small [OF assms(1)] by simp
  show "total_energy bodies = Inr (spec_kinetic bodies)"
    using total_energy_closed [OF assms(2)] spec_potential_small [OF assms(1)] by simp
  then show "total_energy bodies = kinetic bodies"
    using kinetic_closed [OF assms(2)] by simp
next
  fix b
  assume "bodies = [b]"
  then show "vv_step [b] [replicate NDIM 0] dt =
              Inr ([b\<lparr>x := map (\<lambda>c. x b ! c + v b ! c * dt) [0..<NDIM]\<rparr>], [replicate NDIM 0])"
    using assms(2) by (intro single_body_step) simp
qed

theorem fewer_than_two_bodies_witness:
  "length [\<lparr>m = 5, x = [1, 2], v = [3, 4]\<rparr>] < 2 \<and>
   well_formed [\<lparr>m = 5, x = [1, 2], v = [3, 4]\<rparr>] \<and>
   shaped [[7, 8]] (length [\<lparr>m = 5, x = [1, 2], v = [3, 4]\<rparr>]) \<and>
   accelerations [[7, 8]] [\<lparr>m = 5, x = [1, 2], v = [3, 4]\<rparr>] = Inr [[0, 0]] \<and>
   potential [\<lparr>m = 5, x = [1, 2], v = [3, 4]\<rparr>] = Inr 0 \<and>
   total_energy [\<lparr>m = 5, x = [1, 2], v = [3, 4]\<rparr>] = Inr (125 / 2) \<and>
   vv_step [\<lparr>m = 5, x = [1, 2], v = [3, 4]\<rparr>] [[0, 0]] (1 / 2) =
     Inr ([\<lparr>m = 5, x = [5 / 2, 4], v = [3, 4]\<rparr>], [[0, 0]])"
proof -
  let ?b = "\<lparr>m = 5, x = [1, 2], v = [3, 4]\<rparr>"
  have h: "length [?b] < 2" "well_formed [?b]" "shaped [[7, 8]] (length [?b])"
    by (simp_all add: well_formed_def shaped_def NDIM_def)
  have z: "replicate NDIM (0::real) = [0, 0]"
    by (simp add: NDIM_def numeral_2_eq_2)
  have sk: "spec_kinetic [?b] = 125 / 2"
    by (simp add: spec_kinetic_def sum_NDIM)
  from fewer_than_two_bodies [OF h, of "1 / 2"]
  have "accelerations [[7, 8]] [?b] = Inr [[0, 0]] \<and>
        potential [?b] = Inr 0 \<and>
        total_energy [?b] = Inr (125 / 2) \<and>
        vv_step [?b] [[0, 0]] (1 / 2) = Inr ([?b\<lparr>x := [5 / 2, 4]\<rparr>], [[0, 0]])"
    unfolding z sk by (simp add: NDIM_def upt_rec numeral_2_eq_2)
  then show ?thesis
    using h by simp
qed

end
